theory Spec2Isabelle
  imports Main "HOL-Library.AList"
begin

section \<open>Characters and strings of the source language\<close>

text \<open>
  The program is Python: its strings are sequences of code points. A \<^typ>\<open>char\<close> stands
  for one code point in the range U+0000 .. U+00FF (Latin-1), and the character classes
  below are the ones Python's \<^verbatim>\<open>str\<close> methods and its \<^verbatim>\<open>re\<close> module use on that range.
  Code points above U+00FF are not represented.
\<close>

definition code :: "char \<Rightarrow> nat" where
  "code c = of_char c"

definition between :: "nat \<Rightarrow> nat \<Rightarrow> nat \<Rightarrow> bool" where
  "between lo hi n = (lo \<le> n \<and> n \<le> hi)"

text \<open>\<^verbatim>\<open>\d\<close>: the decimal digits; on Latin-1 these are \<^verbatim>\<open>0\<close> .. \<^verbatim>\<open>9\<close>.\<close>

definition is_digit :: "char \<Rightarrow> bool" where
  "is_digit c = between 48 57 (code c)"

text \<open>\<^verbatim>\<open>\s\<close> and \<^verbatim>\<open>str.isspace\<close>: tab .. carriage return, the four separators
  U+001C .. U+001F, space, U+0085 and U+00A0.\<close>

definition is_space :: "char \<Rightarrow> bool" where
  "is_space c = (between 9 13 (code c) \<or> between 28 32 (code c)
                 \<or> code c = 133 \<or> code c = 160)"

text \<open>\<^verbatim>\<open>\w\<close>: alphanumeric code points and the underscore.\<close>

definition is_word :: "char \<Rightarrow> bool" where
  "is_word c = (between 48 57 (code c) \<or> between 65 90 (code c) \<or> code c = 95
                \<or> between 97 122 (code c)
                \<or> code c = 170 \<or> between 178 179 (code c) \<or> code c = 181
                \<or> between 185 186 (code c) \<or> between 188 190 (code c)
                \<or> between 192 214 (code c) \<or> between 216 246 (code c)
                \<or> between 248 255 (code c))"

text \<open>Case mapping inside Latin-1, as used by the \<^verbatim>\<open>IGNORECASE\<close> flag.\<close>

definition lower :: "char \<Rightarrow> char" where
  "lower c = (if between 65 90 (code c) \<or> between 192 214 (code c) \<or> between 216 222 (code c)
              then char_of (code c + 32) else c)"

definition upper :: "char \<Rightarrow> char" where
  "upper c = (if between 97 122 (code c) \<or> between 224 246 (code c) \<or> between 248 254 (code c)
              then char_of (code c - 32) else c)"

text \<open>\<^verbatim>\<open>str.strip()\<close>: remove leading and trailing whitespace.\<close>

definition lstrip :: "string \<Rightarrow> string" where
  "lstrip s = dropWhile is_space s"

definition strip :: "string \<Rightarrow> string" where
  "strip s = rev (dropWhile is_space (rev (lstrip s)))"

text \<open>\<^verbatim>\<open>str.splitlines()\<close>: the line boundaries are LF, CR, CR LF, VT, FF, U+001C, U+001D,
  U+001E and U+0085; a boundary at the very end does not open another line.\<close>

definition is_linebreak :: "char \<Rightarrow> bool" where
  "is_linebreak c = (between 10 13 (code c) \<or> between 28 30 (code c) \<or> code c = 133)"

fun splitlines_acc :: "string \<Rightarrow> string \<Rightarrow> string list" where
  "splitlines_acc cur [] = (if cur = [] then [] else [rev cur])"
| "splitlines_acc cur (c # cs) =
     (if is_linebreak c
      then rev cur # (case cs of
                        d # ds \<Rightarrow> if code c = 13 \<and> code d = 10 then splitlines_acc [] ds
                                  else splitlines_acc [] cs
                      | [] \<Rightarrow> splitlines_acc [] cs)
      else splitlines_acc (c # cur) cs)"

definition splitlines :: "string \<Rightarrow> string list" where
  "splitlines s = splitlines_acc [] s"

section \<open>Regular expressions of Python's re module\<close>

text \<open>
  The constructs the program's patterns use: literal characters, character sets with ranges and
  the classes \<^verbatim>\<open>\d\<close> and \<^verbatim>\<open>\s\<close>, greedy bounded and unbounded repetition of a single
  character item, greedy optional groups, capturing groups, \<^verbatim>\<open>^\<close> and \<^verbatim>\<open>\b\<close>.
\<close>

datatype citem = Lit char | Range char char | CDigit | CSpace

datatype atom = Chr char | In "citem list" | NotIn "citem list" | Dig | Spc

datatype re =
    Atom atom
  | Rep atom nat "nat option"
  | Seq re re
  | Opt re
  | Group nat re
  | Bol
  | WordB
  | Eps

fun citem_match :: "bool \<Rightarrow> citem \<Rightarrow> char \<Rightarrow> bool" where
  "citem_match ic (Lit x) c = (c = x \<or> (ic \<and> (lower c = x \<or> upper c = x)))"
| "citem_match ic (Range lo hi) c =
     (between (code lo) (code hi) (code c)
      \<or> (ic \<and> (between (code lo) (code hi) (code (lower c))
               \<or> between (code lo) (code hi) (code (upper c)))))"
| "citem_match ic CDigit c = is_digit c"
| "citem_match ic CSpace c = is_space c"

fun atom_match :: "bool \<Rightarrow> atom \<Rightarrow> char \<Rightarrow> bool" where
  "atom_match ic (Chr x) c = citem_match ic (Lit x) c"
| "atom_match ic (In items) c = list_ex (\<lambda>i. citem_match ic i c) items"
| "atom_match ic (NotIn items) c = (\<not> list_ex (\<lambda>i. citem_match ic i c) items)"
| "atom_match ic Dig c = is_digit c"
| "atom_match ic Spc c = is_space c"

text \<open>
  A match attempt at one position yields every way the pattern can match there, in the order
  in which the backtracking matcher of \<^verbatim>\<open>re\<close> tries them; the head of the list is the match
  \<^verbatim>\<open>re\<close> reports. A result is the matched text, the groups captured, and the rest of the
  subject. \<open>prev\<close> is the character before the current position (\<open>None\<close> at the start of
  the subject).
\<close>

type_synonym mres = "string \<times> (nat \<times> string) list \<times> string"

definition prev_after :: "char option \<Rightarrow> string \<Rightarrow> char option" where
  "prev_after prev m = (if m = [] then prev else Some (last m))"

definition word_at :: "char option \<Rightarrow> bool" where
  "word_at oc = (case oc of None \<Rightarrow> False | Some c \<Rightarrow> is_word c)"

definition next_char :: "string \<Rightarrow> char option" where
  "next_char s = (case s of [] \<Rightarrow> None | c # _ \<Rightarrow> Some c)"

definition rep_bound :: "nat option \<Rightarrow> nat \<Rightarrow> nat" where
  "rep_bound hi n = (case hi of None \<Rightarrow> n | Some h \<Rightarrow> min h n)"

definition rep_matches :: "(char \<Rightarrow> bool) \<Rightarrow> nat \<Rightarrow> nat option \<Rightarrow> string \<Rightarrow> mres list" where
  "rep_matches p lo hi s =
     map (\<lambda>k. (take k s, [], drop k s))
         (rev [lo ..< Suc (rep_bound hi (length (takeWhile p s)))])"

fun rmatch :: "bool \<Rightarrow> re \<Rightarrow> char option \<Rightarrow> string \<Rightarrow> mres list" where
  "rmatch ic (Atom a) prev s =
     (case s of [] \<Rightarrow> [] | c # cs \<Rightarrow> if atom_match ic a c then [([c], [], cs)] else [])"
| "rmatch ic (Rep a lo hi) prev s = rep_matches (atom_match ic a) lo hi s"
| "rmatch ic (Seq a b) prev s =
     concat (map (\<lambda>(m1, g1, s1).
                    map (\<lambda>(m2, g2, s2). (m1 @ m2, g1 @ g2, s2))
                        (rmatch ic b (prev_after prev m1) s1))
                 (rmatch ic a prev s))"
| "rmatch ic (Opt a) prev s = rmatch ic a prev s @ [([], [], s)]"
| "rmatch ic (Group n a) prev s = map (\<lambda>(m, g, s'). (m, g @ [(n, m)], s')) (rmatch ic a prev s)"
| "rmatch ic Bol prev s = (if prev = None then [([], [], s)] else [])"
| "rmatch ic WordB prev s = (if word_at prev \<noteq> word_at (next_char s) then [([], [], s)] else [])"
| "rmatch ic Eps prev s = [([], [], s)]"

text \<open>A match object: group 0 and the numbered groups.\<close>

type_synonym match = "string \<times> (nat \<times> string) list"

definition first_match :: "mres list \<Rightarrow> match option" where
  "first_match rs = (case rs of [] \<Rightarrow> None | (m, g, _) # _ \<Rightarrow> Some (m, g))"

text \<open>\<^verbatim>\<open>re.match\<close>: only at the start of the subject.\<close>

definition re_match :: "bool \<Rightarrow> re \<Rightarrow> string \<Rightarrow> match option" where
  "re_match ic r s = first_match (rmatch ic r None s)"

text \<open>\<^verbatim>\<open>re.search\<close>: the first position, from the left, at which the pattern matches.\<close>

fun search_from :: "bool \<Rightarrow> re \<Rightarrow> char option \<Rightarrow> string \<Rightarrow> match option" where
  "search_from ic r prev [] = first_match (rmatch ic r prev [])"
| "search_from ic r prev (c # cs) =
     (case first_match (rmatch ic r prev (c # cs)) of
        Some m \<Rightarrow> Some m
      | None \<Rightarrow> search_from ic r (Some c) cs)"

definition re_search :: "bool \<Rightarrow> re \<Rightarrow> string \<Rightarrow> match option" where
  "re_search ic r s = search_from ic r None s"

text \<open>\<^verbatim>\<open>m.group()\<close> and \<^verbatim>\<open>m.group(n)\<close>; a group that took no part in the match is \<open>None\<close>.\<close>

definition group0 :: "match \<Rightarrow> string" where
  "group0 m = fst m"

definition group :: "match \<Rightarrow> nat \<Rightarrow> string option" where
  "group m n = map_of (rev (snd m)) n"

text \<open>\<^verbatim>\<open>re.sub\<close> for a pattern that is one character item: every matching character is
  replaced.\<close>

definition re_sub_atom :: "bool \<Rightarrow> atom \<Rightarrow> string \<Rightarrow> string \<Rightarrow> string" where
  "re_sub_atom ic a repl s = concat (map (\<lambda>c. if atom_match ic a c then repl else [c]) s)"

text \<open>Pattern builders: a literal string, a sequence, \<^verbatim>\<open>+\<close> and \<^verbatim>\<open>*\<close>.\<close>

fun seq :: "re list \<Rightarrow> re" where
  "seq [] = Eps"
| "seq [r] = r"
| "seq (r # rs) = Seq r (seq rs)"

definition lit :: "string \<Rightarrow> re" where
  "lit s = seq (map (\<lambda>c. Atom (Chr c)) s)"

definition plus_of :: "atom \<Rightarrow> re" where
  "plus_of a = Rep a 1 None"

definition star_of :: "atom \<Rightarrow> re" where
  "star_of a = Rep a 0 None"

section \<open>The patterns of the program\<close>

text \<open>\<^verbatim>\<open>r"(?i)^([A-Z][a-z]+)\s+([A-Z][a-z]+)"\<close>\<close>

definition cap_word :: "re" where
  "cap_word = Seq (Atom (In [Range CHR ''A'' CHR ''Z''])) (plus_of (In [Range CHR ''a'' CHR ''z'']))"

definition name_line_re :: "re" where
  "name_line_re = seq [Bol, Group 1 cap_word, plus_of Spc, Group 2 cap_word]"

text \<open>\<^verbatim>\<open>r"(?i)^name[:\s]*([A-Z][a-z]+\s[A-Z][a-z]+)"\<close>\<close>

definition name_label_re :: "re" where
  "name_label_re =
     seq [Bol, lit ''name'', star_of (In [Lit CHR '':'', CSpace]),
          Group 1 (seq [cap_word, Atom Spc, cap_word])]"

text \<open>\<^verbatim>\<open>r"\b[a-zA-Z0-9_.+-]+@[a-zA-Z0-9-]+\.[a-zA-Z0-9-.]+\b"\<close>\<close>

definition alnum_items :: "citem list" where
  "alnum_items = [Range CHR ''a'' CHR ''z'', Range CHR ''A'' CHR ''Z'', Range CHR ''0'' CHR ''9'']"

definition local_part :: "atom" where
  "local_part = In (alnum_items @ [Lit CHR ''_'', Lit CHR ''.'', Lit CHR ''+'', Lit CHR ''-''])"

definition domain_label :: "atom" where
  "domain_label = In (alnum_items @ [Lit CHR ''-''])"

definition domain_rest :: "atom" where
  "domain_rest = In (alnum_items @ [Lit CHR ''-'', Lit CHR ''.''])"

definition email_re :: "re" where
  "email_re =
     seq [WordB, plus_of local_part, Atom (Chr CHR ''@''), plus_of domain_label,
          Atom (Chr CHR ''.''), plus_of domain_rest, WordB]"

text \<open>\<^verbatim>\<open>r"\b(?:\+91[\s\-]*)?\d{10,13}\b"\<close>\<close>

definition phone_re :: "re" where
  "phone_re =
     seq [WordB,
          Opt (seq [lit ''+91'', star_of (In [CSpace, Lit CHR ''-''])]),
          Rep Dig 10 (Some 13),
          WordB]"

text \<open>\<^verbatim>\<open>r"(https?://)?(www\.)?linkedin\.com/in/[a-zA-Z0-9_-]+"\<close> and
  \<^verbatim>\<open>r"(https?://)?(www\.)?github\.com/[a-zA-Z0-9_-]+"\<close>, both with \<^verbatim>\<open>re.IGNORECASE\<close>.\<close>

definition url_prefix :: "re" where
  "url_prefix =
     Seq (Opt (Group 1 (seq [lit ''http'', Opt (Atom (Chr CHR ''s'')), lit ''://''])))
         (Opt (Group 2 (lit ''www.'')))"

definition user_token :: "re" where
  "user_token = plus_of (In (alnum_items @ [Lit CHR ''_'', Lit CHR ''-'']))"

definition linkedin_re :: "re" where
  "linkedin_re = seq [url_prefix, lit ''linkedin.com/in/'', user_token]"

definition github_re :: "re" where
  "github_re = seq [url_prefix, lit ''github.com/'', user_token]"

section \<open>The validator\<close>

text \<open>
  \<^verbatim>\<open>
  def is_valid_phone(number):
      cleaned = re.sub(r"[^\d]", "", number)
      return 10 <= len(cleaned) <= 13
  \<close>
\<close>

definition is_valid_phone :: "string \<Rightarrow> bool" where
  "is_valid_phone number =
     (let cleaned = re_sub_atom False (NotIn [CDigit]) [] number
      in 10 \<le> length cleaned \<and> length cleaned \<le> 13)"

section \<open>Exceptions, dictionaries and the collaborators\<close>

datatype exn =
    KeyError string
  | AttributeError
  | TypeError
  | HTTPException nat string
  | LibraryError string

definition ebind :: "exn + 'a \<Rightarrow> ('a \<Rightarrow> exn + 'b) \<Rightarrow> exn + 'b" where
  "ebind m f = (case m of Inl e \<Rightarrow> Inl e | Inr x \<Rightarrow> f x)"

text \<open>The values the result dictionary holds, and the dictionary itself: a Python \<^verbatim>\<open>dict\<close>
  keeps its keys in insertion order, and assigning to a key it has keeps the key's place.\<close>

datatype val = Str string | StrList "string list"

type_synonym info = "(string \<times> val) list"

definition getitem :: "info \<Rightarrow> string \<Rightarrow> exn + val" where
  "getitem d k = (case map_of d k of None \<Rightarrow> Inl (KeyError k) | Some v \<Rightarrow> Inr v)"

definition setitem :: "info \<Rightarrow> string \<Rightarrow> val \<Rightarrow> info" where
  "setitem d k v = AList.update k v d"

definition truthy :: "val \<Rightarrow> bool" where
  "truthy v = (case v of Str s \<Rightarrow> s \<noteq> [] | StrList xs \<Rightarrow> xs \<noteq> [])"

text \<open>\<^verbatim>\<open>not d[k]\<close>\<close>

definition is_unset :: "info \<Rightarrow> string \<Rightarrow> exn + bool" where
  "is_unset d k = ebind (getitem d k) (\<lambda>v. Inr (\<not> truthy v))"

text \<open>\<^verbatim>\<open>v.append(x)\<close>: only a list has the method.\<close>

definition list_append :: "val \<Rightarrow> string \<Rightarrow> exn + val" where
  "list_append v x = (case v of StrList xs \<Rightarrow> Inr (StrList (xs @ [x])) | Str _ \<Rightarrow> Inl AttributeError)"

text \<open>An entity span of the recognizer: \<^verbatim>\<open>ent.text\<close> and \<^verbatim>\<open>ent.label_\<close>.\<close>

record span =
  ent_text :: string
  ent_label :: string

text \<open>
  The recognizer \<^verbatim>\<open>nlp\<close> (the entity spans of \<^verbatim>\<open>nlp(text).ents\<close>) and the name parser
  \<^verbatim>\<open>HumanName\<close> (its attributes \<^verbatim>\<open>first\<close> and \<^verbatim>\<open>last\<close>) are libraries outside the
  repository; the pipeline takes them as parameters \<open>nlp\<close> and \<open>hn\<close>.
\<close>

type_synonym recognizer = "string \<Rightarrow> span list"

type_synonym name_parser = "string \<Rightarrow> string \<times> string"

fun for_each :: "('s \<Rightarrow> 'a \<Rightarrow> exn + 's) \<Rightarrow> 's \<Rightarrow> 'a list \<Rightarrow> exn + 's" where
  "for_each body d [] = Inr d"
| "for_each body d (x # xs) = ebind (body d x) (\<lambda>d'. for_each body d' xs)"

section \<open>The extraction pipeline\<close>

text \<open>
  \<^verbatim>\<open>
  extracted_info = {"name": "", "email": "", "phone": "", "location": "", "skills": []}
  \<close>
\<close>

definition init_info :: "info" where
  "init_info = [(''name'', Str []), (''email'', Str []), (''phone'', Str []),
                (''location'', Str []), (''skills'', StrList [])]"

text \<open>
  \<^verbatim>\<open>
  for ent in doc.ents:
      if ent.label_ == "PERSON" and not extracted_info["name"]:
          extracted_info["name"] = ent.text.strip()
      elif ent.label_ in ["GPE", "LOC"] and not extracted_info["location"]:
          extracted_info["location"] = ent.text.strip()
      elif ent.label_ == "SKILL":
          extracted_info["skills"].append(ent.text.strip())
  \<close>
\<close>

definition ent_step :: "info \<Rightarrow> span \<Rightarrow> exn + info" where
  "ent_step d ent =
     ebind (if ent_label ent = ''PERSON'' then is_unset d ''name'' else Inr False) (\<lambda>c1.
       if c1 then Inr (setitem d ''name'' (Str (strip (ent_text ent))))
       else
         ebind (if ent_label ent = ''GPE'' \<or> ent_label ent = ''LOC''
                then is_unset d ''location'' else Inr False) (\<lambda>c2.
           if c2 then Inr (setitem d ''location'' (Str (strip (ent_text ent))))
           else if ent_label ent = ''SKILL''
           then ebind (getitem d ''skills'') (\<lambda>v.
                  ebind (list_append v (strip (ent_text ent))) (\<lambda>v'.
                    Inr (setitem d ''skills'' v')))
           else Inr d))"

text \<open>
  \<^verbatim>\<open>
  parsed_name = HumanName(extracted_info["name"])
  extracted_info["First Name"] = parsed_name.first.strip()
  extracted_info["Last Name"] = parsed_name.last.strip()
  \<close>
\<close>

definition parse_name :: "name_parser \<Rightarrow> info \<Rightarrow> exn + info" where
  "parse_name hn d =
     ebind (getitem d ''name'') (\<lambda>v.
       case v of
         Str n \<Rightarrow>
           Inr (setitem (setitem d ''First Name'' (Str (strip (fst (hn n)))))
                        ''Last Name'' (Str (strip (snd (hn n)))))
       | StrList _ \<Rightarrow> Inl TypeError)"

text \<open>
  \<^verbatim>\<open>
  for line in lines[:10]:
      name_match = re.match(r"(?i)^([A-Z][a-z]+)\s+([A-Z][a-z]+)", line.strip())
      if name_match:
          extracted_info["name"] = name_match.group().strip()
          (parse the name)
          break
  \<close>
\<close>

fun name_line_loop :: "name_parser \<Rightarrow> info \<Rightarrow> string list \<Rightarrow> exn + info" where
  "name_line_loop hn d [] = Inr d"
| "name_line_loop hn d (line # rest) =
     (case re_match True name_line_re (strip line) of
        Some m \<Rightarrow> parse_name hn (setitem d ''name'' (Str (strip (group0 m))))
      | None \<Rightarrow> name_line_loop hn d rest)"

text \<open>
  \<^verbatim>\<open>
  for line in lines:
      match = re.search(r"(?i)^name[:\s]*([A-Z][a-z]+\s[A-Z][a-z]+)", line.strip())
      if match:
          extracted_info["name"] = match.group(1).strip()
          (parse the name)
          break
  \<close>
\<close>

fun name_label_loop :: "name_parser \<Rightarrow> info \<Rightarrow> string list \<Rightarrow> exn + info" where
  "name_label_loop hn d [] = Inr d"
| "name_label_loop hn d (line # rest) =
     (case re_search True name_label_re (strip line) of
        Some m \<Rightarrow>
          (case group m 1 of
             None \<Rightarrow> Inl AttributeError
           | Some g \<Rightarrow> parse_name hn (setitem d ''name'' (Str (strip g))))
      | None \<Rightarrow> name_label_loop hn d rest)"

text \<open>The three name blocks of the function, each guarded by the state of \<^verbatim>\<open>name\<close>.\<close>

definition name_stage :: "name_parser \<Rightarrow> string list \<Rightarrow> info \<Rightarrow> exn + info" where
  "name_stage hn lines d1 =
     ebind (ebind (getitem d1 ''name'') (\<lambda>v. if truthy v then parse_name hn d1 else Inr d1)) (\<lambda>d2.
     ebind (ebind (is_unset d2 ''name'') (\<lambda>c.
              if c then name_line_loop hn d2 (take 10 lines) else Inr d2)) (\<lambda>d3.
     ebind (is_unset d3 ''name'') (\<lambda>c.
       if c then name_label_loop hn d3 lines else Inr d3)))"

text \<open>
  \<^verbatim>\<open>
  email_match = re.search(r"\b[a-zA-Z0-9_.+-]+@[a-zA-Z0-9-]+\.[a-zA-Z0-9-.]+\b", text)
  if email_match:
      extracted_info["email"] = email_match.group()
  \<close>
\<close>

definition email_stage :: "string \<Rightarrow> info \<Rightarrow> info" where
  "email_stage txt d =
     (case re_search False email_re txt of
        Some m \<Rightarrow> setitem d ''email'' (Str (group0 m))
      | None \<Rightarrow> d)"

text \<open>
  \<^verbatim>\<open>
  phone_candidates = [ent.text.strip() for ent in doc.ents if ent.label_ == "PHONE"]
  for num in phone_candidates:
      if is_valid_phone(num):
          extracted_info["phone"] = num
          break
  if not extracted_info["phone"]:
      fallback_match = re.search(r"\b(?:\+91[\s\-]*)?\d{10,13}\b", text)
      if fallback_match and is_valid_phone(fallback_match.group()):
          extracted_info["phone"] = fallback_match.group()
  \<close>
\<close>

fun phone_loop :: "info \<Rightarrow> string list \<Rightarrow> info" where
  "phone_loop d [] = d"
| "phone_loop d (num # rest) =
     (if is_valid_phone num then setitem d ''phone'' (Str num) else phone_loop d rest)"

definition phone_fallback :: "string \<Rightarrow> info \<Rightarrow> exn + info" where
  "phone_fallback txt d =
     ebind (is_unset d ''phone'') (\<lambda>c.
       if c then
         (case re_search False phone_re txt of
            Some m \<Rightarrow> if is_valid_phone (group0 m)
                      then Inr (setitem d ''phone'' (Str (group0 m))) else Inr d
          | None \<Rightarrow> Inr d)
       else Inr d)"

definition phone_stage :: "span list \<Rightarrow> string \<Rightarrow> info \<Rightarrow> exn + info" where
  "phone_stage ents txt d =
     (let phone_candidates = map (\<lambda>ent. strip (ent_text ent))
                                 (filter (\<lambda>ent. ent_label ent = ''PHONE'') ents)
      in phone_fallback txt (phone_loop d phone_candidates))"

text \<open>
  \<^verbatim>\<open>
  linkedin_match = re.search(r"(https?://)?(www\.)?linkedin\.com/in/[a-zA-Z0-9_-]+", text, re.IGNORECASE)
  if linkedin_match:
      extracted_info["linkedin"] = linkedin_match.group()
  github_match = re.search(r"(https?://)?(www\.)?github\.com/[a-zA-Z0-9_-]+", text, re.IGNORECASE)
  if github_match:
      extracted_info["github"] = github_match.group()
  \<close>
\<close>

definition link_stage :: "string \<Rightarrow> re \<Rightarrow> string \<Rightarrow> info \<Rightarrow> info" where
  "link_stage key pat txt d =
     (case re_search True pat txt of
        Some m \<Rightarrow> setitem d key (Str (group0 m))
      | None \<Rightarrow> d)"

definition extract_info_with_spacy_regex ::
    "recognizer \<Rightarrow> name_parser \<Rightarrow> string \<Rightarrow> exn + info" where
  "extract_info_with_spacy_regex nlp hn txt =
     (let ents = nlp txt;
          lines = splitlines txt
      in ebind (for_each ent_step init_info ents) (\<lambda>d1.
         ebind (name_stage hn lines d1) (\<lambda>d4.
         ebind (phone_stage ents txt (email_stage txt d4)) (\<lambda>d7.
         Inr (link_stage ''github'' github_re txt
                (link_stage ''linkedin'' linkedin_re txt d7))))))"

section \<open>Text extraction from a PDF\<close>

text \<open>
  The PDF library and the OCR engine are collaborators: \<open>open_doc\<close> opens the bytes as a
  document (its pages, or the library's failure), \<open>get_text\<close> is \<^verbatim>\<open>page.get_text()\<close>, and
  \<open>ocr\<close> renders one page at 300 dpi and runs \<^verbatim>\<open>pytesseract.image_to_string\<close> on it.
  Every call to a collaborator is recorded in a log.
\<close>

datatype 'p event = ReadFile | OpenDoc | GetText 'p | OcrStart | OcrPage 'p | Recognize

text \<open>
  \<^verbatim>\<open>
  def extract_text_with_ocr(file_bytes):
      text = ""
      doc = fitz.open(stream=BytesIO(file_bytes), filetype="pdf")
      for page in doc:
          ...
          page_text = pytesseract.image_to_string(img)
          text += page_text + "\n"
      doc.close()
      return text
  \<close>
\<close>

fun ocr_loop :: "('p \<Rightarrow> string) \<Rightarrow> 'p list \<Rightarrow> string \<times> 'p event list \<Rightarrow> string \<times> 'p event list" where
  "ocr_loop ocr [] (text, log) = (text, log)"
| "ocr_loop ocr (page # rest) (text, log) =
     ocr_loop ocr rest (text @ ocr page @ [CHR 0x0A], log @ [OcrPage page])"

definition extract_text_with_ocr ::
    "('b \<Rightarrow> exn + 'p list) \<Rightarrow> ('p \<Rightarrow> string) \<Rightarrow> 'b \<Rightarrow> 'p event list
       \<Rightarrow> (exn + string) \<times> 'p event list" where
  "extract_text_with_ocr open_doc ocr file_bytes log =
     (case open_doc file_bytes of
        Inl e \<Rightarrow> (Inl e, log @ [OcrStart, OpenDoc])
      | Inr doc \<Rightarrow>
          (let (text, log') = ocr_loop ocr doc ([], log @ [OcrStart, OpenDoc])
           in (Inr text, log')))"

text \<open>
  \<^verbatim>\<open>
  def extract_text_from_pdf(file_bytes):
      doc = fitz.open(stream=BytesIO(file_bytes), filetype="pdf")
      text = ""
      for page in doc:
          text += page.get_text()
      doc.close()
      if len(text.strip()) < 100:
          text = extract_text_with_ocr(file_bytes)
      return text
  \<close>
\<close>

fun text_loop :: "('p \<Rightarrow> string) \<Rightarrow> 'p list \<Rightarrow> string \<times> 'p event list \<Rightarrow> string \<times> 'p event list" where
  "text_loop get_text [] (text, log) = (text, log)"
| "text_loop get_text (page # rest) (text, log) =
     text_loop get_text rest (text @ get_text page, log @ [GetText page])"

definition extract_text_from_pdf ::
    "('b \<Rightarrow> exn + 'p list) \<Rightarrow> ('p \<Rightarrow> string) \<Rightarrow> ('p \<Rightarrow> string) \<Rightarrow> 'b \<Rightarrow> 'p event list
       \<Rightarrow> (exn + string) \<times> 'p event list" where
  "extract_text_from_pdf open_doc get_text ocr file_bytes log =
     (case open_doc file_bytes of
        Inl e \<Rightarrow> (Inl e, log @ [OpenDoc])
      | Inr doc \<Rightarrow>
          (let (text, log') = text_loop get_text doc ([], log @ [OpenDoc])
           in if length (strip text) < 100
              then extract_text_with_ocr open_doc ocr file_bytes log'
              else (Inr text, log')))"

section \<open>The request handlers\<close>

text \<open>
  An uploaded file: the content type the caller declared and the bytes \<^verbatim>\<open>file.read()\<close>
  returns. \<open>exn_str\<close> is \<^verbatim>\<open>str(e)\<close>, which the exception classes of the libraries define.

  \<^verbatim>\<open>
  async def parse_resume_pdf(file: UploadFile = File(...)):
      try:
          if file.content_type != "application/pdf":
              raise HTTPException(status_code=400, detail="File must be a PDF")
          file_bytes = await file.read()
          text = extract_text_from_pdf(file_bytes)
          parsed_data = extract_info_with_spacy_regex(text)
          return parsed_data
      except Exception as e:
          raise HTTPException(status_code=500, detail=f"Error processing PDF: {str(e)}")
  \<close>
  The first definition is the body of the \<^verbatim>\<open>try\<close>, the second adds the \<^verbatim>\<open>except\<close> clause:
  \<^verbatim>\<open>HTTPException\<close> is a subclass of \<^verbatim>\<open>Exception\<close>, so the clause handles every exception
  the body raises.
\<close>

record 'b upload =
  content_type :: string
  file_bytes :: 'b

definition parse_resume_pdf_body ::
    "('b \<Rightarrow> exn + 'p list) \<Rightarrow> ('p \<Rightarrow> string) \<Rightarrow> ('p \<Rightarrow> string) \<Rightarrow> recognizer \<Rightarrow> name_parser
       \<Rightarrow> 'b upload \<Rightarrow> (exn + info) \<times> 'p event list" where
  "parse_resume_pdf_body open_doc get_text ocr nlp hn file =
     (if content_type file \<noteq> ''application/pdf''
      then (Inl (HTTPException 400 ''File must be a PDF''), [])
      else
        (case extract_text_from_pdf open_doc get_text ocr (file_bytes file) [ReadFile] of
           (Inl e, log) \<Rightarrow> (Inl e, log)
         | (Inr text, log) \<Rightarrow> (extract_info_with_spacy_regex nlp hn text, log @ [Recognize])))"

definition parse_resume_pdf ::
    "(exn \<Rightarrow> string) \<Rightarrow> ('b \<Rightarrow> exn + 'p list) \<Rightarrow> ('p \<Rightarrow> string) \<Rightarrow> ('p \<Rightarrow> string) \<Rightarrow> recognizer
       \<Rightarrow> name_parser \<Rightarrow> 'b upload \<Rightarrow> (exn + info) \<times> 'p event list" where
  "parse_resume_pdf exn_str open_doc get_text ocr nlp hn file =
     (case parse_resume_pdf_body open_doc get_text ocr nlp hn file of
        (Inl e, log) \<Rightarrow> (Inl (HTTPException 500 (''Error processing PDF: '' @ exn_str e)), log)
      | (Inr parsed_data, log) \<Rightarrow> (Inr parsed_data, log))"

text \<open>
  \<^verbatim>\<open>
  async def parse_resume(resume: ResumeText):
      try:
          parsed_data = extract_info_with_spacy_regex(resume.text)
          return parsed_data
      except Exception as e:
          raise HTTPException(status_code=500, detail=f"Error processing resume: {str(e)}")
  \<close>
\<close>

definition parse_resume ::
    "(exn \<Rightarrow> string) \<Rightarrow> recognizer \<Rightarrow> name_parser \<Rightarrow> string \<Rightarrow> exn + info" where
  "parse_resume exn_str nlp hn resume_text =
     (case extract_info_with_spacy_regex nlp hn resume_text of
        Inl e \<Rightarrow> Inl (HTTPException 500 (''Error processing resume: '' @ exn_str e))
      | Inr parsed_data \<Rightarrow> Inr parsed_data)"

section \<open>The spec's wording, and sample collaborators for concrete runs\<close>

text \<open>"Newline-joined", as the specification words the OCR result: the texts with one newline
  between each two of them (\<^verbatim>\<open>"\n".join(texts)\<close>).\<close>

fun newline_join :: "string list \<Rightarrow> string" where
  "newline_join [] = []"
| "newline_join [x] = x"
| "newline_join (x # y # rest) = x @ [CHR 0x0A] @ newline_join (y # rest)"

text \<open>A document of pages numbered from 0, none with a text layer, whose OCR text is
  \<^verbatim>\<open>x\<close> on every page.\<close>

definition one_page :: "unit \<Rightarrow> exn + nat list" where
  "one_page b = Inr [0]"

definition two_pages :: "unit \<Rightarrow> exn + nat list" where
  "two_pages b = Inr [0, 1]"

definition no_text_layer :: "nat \<Rightarrow> string" where
  "no_text_layer p = []"

definition ocr_x :: "nat \<Rightarrow> string" where
  "ocr_x p = ''x''"

text \<open>A recognizer that finds nothing, and one that returns given spans whatever the text.\<close>

definition no_ents :: "recognizer" where
  "no_ents txt = []"

definition const_ents :: "span list \<Rightarrow> recognizer" where
  "const_ents ents txt = ents"

text \<open>A name parser that takes the text before the first space as the first name and the
  text after it as the last name.\<close>

definition split_name :: "name_parser" where
  "split_name n = (takeWhile (\<lambda>c. c \<noteq> CHR '' '') n, drop 1 (dropWhile (\<lambda>c. c \<noteq> CHR '' '') n))"

definition exn_text :: "exn \<Rightarrow> string" where
  "exn_text e = (case e of HTTPException status detail \<Rightarrow> detail | KeyError k \<Rightarrow> k
                 | LibraryError m \<Rightarrow> m | _ \<Rightarrow> [])"

section \<open>Reading the entity spans\<close>

text \<open>The trimmed text of the first span that satisfies \<open>ok\<close> and whose trimmed text is not
  empty; empty when there is none.\<close>

definition first_text :: "(span \<Rightarrow> bool) \<Rightarrow> span list \<Rightarrow> string" where
  "first_text ok ents =
     (case find (\<lambda>ent. ok ent \<and> strip (ent_text ent) \<noteq> []) ents of
        None \<Rightarrow> []
      | Some ent \<Rightarrow> strip (ent_text ent))"

definition is_person :: "span \<Rightarrow> bool" where
  "is_person ent = (ent_label ent = ''PERSON'')"

definition is_location :: "span \<Rightarrow> bool" where
  "is_location ent = (ent_label ent = ''GPE'' \<or> ent_label ent = ''LOC'')"

definition is_skill :: "span \<Rightarrow> bool" where
  "is_skill ent = (ent_label ent = ''SKILL'')"

definition trimmed_texts :: "span list \<Rightarrow> string list" where
  "trimmed_texts ents = map (\<lambda>ent. strip (ent_text ent)) ents"

definition is_phone :: "span \<Rightarrow> bool" where
  "is_phone ent = (ent_label ent = ''PHONE'')"

section \<open>The cascade, field by field\<close>

text \<open>
  What the pipeline computes, written as plain functions of the entity spans and the text.
  The theorems below show that the code computes exactly this.
\<close>

definition is_ascii_letter :: "char \<Rightarrow> bool" where
  "is_ascii_letter c = (between 65 90 (code c) \<or> between 97 122 (code c))"

fun first_some :: "('a \<Rightarrow> 'b option) \<Rightarrow> 'a list \<Rightarrow> 'b option" where
  "first_some f [] = None"
| "first_some f (x # xs) = (case f x of Some y \<Rightarrow> Some y | None \<Rightarrow> first_some f xs)"

text \<open>The name the second strategy reads off one line, and the name the third reads off it.\<close>

definition name_from_line :: "string \<Rightarrow> string option" where
  "name_from_line line =
     map_option (\<lambda>m. strip (group0 m)) (re_match True name_line_re (strip line))"

definition name_from_label :: "string \<Rightarrow> string option" where
  "name_from_label line =
     (case re_search True name_label_re (strip line) of
        None \<Rightarrow> None
      | Some m \<Rightarrow> map_option strip (group m 1))"

definition fallback_name :: "string list \<Rightarrow> string" where
  "fallback_name lines =
     (case first_some name_from_line (take 10 lines) of
        Some n \<Rightarrow> n
      | None \<Rightarrow> (case first_some name_from_label lines of Some n \<Rightarrow> n | None \<Rightarrow> []))"

definition resolve_name :: "span list \<Rightarrow> string list \<Rightarrow> string" where
  "resolve_name ents lines =
     (if first_text is_person ents \<noteq> [] then first_text is_person ents
      else fallback_name lines)"

definition resolve_phone :: "span list \<Rightarrow> string \<Rightarrow> string" where
  "resolve_phone ents txt =
     (case find is_valid_phone (trimmed_texts (filter is_phone ents)) of
        Some p \<Rightarrow> p
      | None \<Rightarrow>
          (case re_search False phone_re txt of
             Some m \<Rightarrow> if is_valid_phone (group0 m) then group0 m else []
           | None \<Rightarrow> []))"

definition found :: "bool \<Rightarrow> re \<Rightarrow> string \<Rightarrow> string option" where
  "found ic pat txt = map_option group0 (re_search ic pat txt)"

definition or_empty :: "string option \<Rightarrow> string" where
  "or_empty x = (case x of None \<Rightarrow> [] | Some s \<Rightarrow> s)"

text \<open>The value the result holds under each key; \<open>None\<close> for a key it does not have.\<close>

definition expected_record :: "recognizer \<Rightarrow> name_parser \<Rightarrow> string \<Rightarrow> string \<Rightarrow> val option" where
  "expected_record nlp hn txt k =
     (let ents = nlp txt; nm = resolve_name ents (splitlines txt) in
      if k = ''name'' then Some (Str nm)
      else if k = ''email'' then Some (Str (or_empty (found False email_re txt)))
      else if k = ''phone'' then Some (Str (resolve_phone ents txt))
      else if k = ''location'' then Some (Str (first_text is_location ents))
      else if k = ''skills'' then Some (StrList (trimmed_texts (filter is_skill ents)))
      else if k = ''First Name'' then (if nm = [] then None else Some (Str (strip (fst (hn nm)))))
      else if k = ''Last Name'' then (if nm = [] then None else Some (Str (strip (snd (hn nm)))))
      else if k = ''linkedin'' then map_option Str (found True linkedin_re txt)
      else if k = ''github'' then map_option Str (found True github_re txt)
      else None)"

text \<open>The dictionary after a name \<open>n\<close> has been stored and parsed.\<close>

definition with_name :: "name_parser \<Rightarrow> info \<Rightarrow> string \<Rightarrow> info" where
  "with_name hn d n =
     setitem (setitem (setitem d ''name'' (Str n)) ''First Name'' (Str (strip (fst (hn n)))))
             ''Last Name'' (Str (strip (snd (hn n))))"

text \<open>Sample inputs: a text whose first line carries a name label and whose fifteenth line
  carries another, and a text whose only name label is on the fifteenth line.\<close>

definition two_labels_text :: "string" where
  "two_labels_text = ''Name: Bob Stone\<newline>-\<newline>-\<newline>-\<newline>-\<newline>-\<newline>-\<newline>-\<newline>-\<newline>-\<newline>-\<newline>-\<newline>-\<newline>-\<newline>Name: Alice Johnson''"

definition label_on_line_15 :: "string" where
  "label_on_line_15 = ''Resume\<newline>2024\<newline>-\<newline>-\<newline>-\<newline>-\<newline>-\<newline>-\<newline>-\<newline>-\<newline>-\<newline>-\<newline>-\<newline>-\<newline>Name: Alice Johnson''"

definition no_name_line :: "string \<Rightarrow> bool" where
  "no_name_line line = (re_match True name_line_re (strip line) = None)"

definition no_name_label :: "string \<Rightarrow> bool" where
  "no_name_label line = (re_search True name_label_re (strip line) = None)"

section \<open>Words of the claims about single patterns\<close>

text \<open>A separator of the phone prefix, \<^verbatim>\<open>[\s\-]\<close>.\<close>

definition is_separator :: "char \<Rightarrow> bool" where
  "is_separator c = (is_space c \<or> c = CHR ''-'')"



section \<open>Facts about the matcher\<close>

lemma take_within_takeWhile:
  assumes "k \<le> length (takeWhile p s)"
  shows "take k s = take k (takeWhile p s)"
proof -
  have "take k s = take k (takeWhile p s @ dropWhile p s)" by simp
  also have "\<dots> = take k (takeWhile p s)" using assms by (simp del: takeWhile_dropWhile_id)
  finally show ?thesis .
qed

lemma takeWhile_covers_prefix:
  assumes "list_all p m"
  shows "length m \<le> length (takeWhile p (m @ s'))"
proof -
  have "takeWhile p (m @ s') = m @ takeWhile p s'"
    using assms by (simp add: list_all_iff takeWhile_append2)
  then show ?thesis by simp
qed

lemma in_rep_matches:
  "(m, g, s') \<in> set (rep_matches p lo hi s) \<longleftrightarrow>
     s = m @ s' \<and> g = [] \<and> list_all p m \<and> lo \<le> length m
     \<and> (case hi of None \<Rightarrow> True | Some h \<Rightarrow> length m \<le> h)"
  (is "?L \<longleftrightarrow> ?R")
proof
  assume ?L
  then obtain k where k: "lo \<le> k" "k \<le> rep_bound hi (length (takeWhile p s))"
      and m: "m = take k s" and g: "g = []" and s': "s' = drop k s"
    by (auto simp: rep_matches_def)
  have kn: "k \<le> length (takeWhile p s)"
    using k(2) by (cases hi) (simp_all add: rep_bound_def)
  have mt: "m = take k (takeWhile p s)"
    unfolding m by (rule take_within_takeWhile [OF kn])
  have "set m \<subseteq> set (takeWhile p s)"
    unfolding mt by (rule set_take_subset)
  then have "list_all p m"
    by (auto simp: list_all_iff dest: set_takeWhileD)
  moreover have "length m = k"
    using kn unfolding mt by simp
  ultimately show ?R
    using k m g s' by (cases hi) (simp_all add: rep_bound_def)
next
  assume a: ?R
  then have "length m \<le> length (takeWhile p s)"
    using takeWhile_covers_prefix [of p m s'] by simp
  with a have "length m \<le> rep_bound hi (length (takeWhile p s))"
    by (cases hi) (simp_all add: rep_bound_def)
  with a have "length m \<in> set (rev [lo ..< Suc (rep_bound hi (length (takeWhile p s)))])"
    by (auto simp: less_Suc_eq_le)
  moreover have "(m, g, s') = (\<lambda>k. (take k s, [], drop k s)) (length m)"
    using a by simp
  ultimately show ?L
    unfolding rep_matches_def set_map by (rule image_eqI [rotated])
qed

lemma in_rmatch_Atom:
  "(m, g, s') \<in> set (rmatch ic (Atom a) prev s) \<longleftrightarrow>
     (\<exists>c. s = c # s' \<and> atom_match ic a c \<and> m = [c] \<and> g = [])"
  by (cases s) auto

lemma in_rmatch_Seq:
  "(m, g, s') \<in> set (rmatch ic (Seq a b) prev s) \<longleftrightarrow>
     (\<exists>m1 g1 s1 m2 g2. (m1, g1, s1) \<in> set (rmatch ic a prev s)
        \<and> (m2, g2, s') \<in> set (rmatch ic b (prev_after prev m1) s1)
        \<and> m = m1 @ m2 \<and> g = g1 @ g2)"
  by (auto simp: image_iff) force+

lemma in_rmatch_Opt:
  "(m, g, s') \<in> set (rmatch ic (Opt a) prev s) \<longleftrightarrow>
     (m, g, s') \<in> set (rmatch ic a prev s) \<or> (m = [] \<and> g = [] \<and> s' = s)"
  by auto

lemma in_rmatch_Group:
  "(m, g, s') \<in> set (rmatch ic (Group n a) prev s) \<longleftrightarrow>
     (\<exists>g1. (m, g1, s') \<in> set (rmatch ic a prev s) \<and> g = g1 @ [(n, m)])"
  by (auto simp: image_iff) force+

lemma in_rmatch_Bol:
  "(m, g, s') \<in> set (rmatch ic Bol prev s) \<longleftrightarrow> prev = None \<and> m = [] \<and> g = [] \<and> s' = s"
  by auto

lemma in_rmatch_WordB:
  "(m, g, s') \<in> set (rmatch ic WordB prev s) \<longleftrightarrow>
     word_at prev \<noteq> word_at (next_char s) \<and> m = [] \<and> g = [] \<and> s' = s"
  by auto

lemma in_rmatch_Rep:
  "(m, g, s') \<in> set (rmatch ic (Rep a lo hi) prev s) \<longleftrightarrow>
     s = m @ s' \<and> g = [] \<and> list_all (atom_match ic a) m \<and> lo \<le> length m
     \<and> (case hi of None \<Rightarrow> True | Some h \<Rightarrow> length m \<le> h)"
  by (simp add: in_rep_matches)


lemma first_match_Some:
  "first_match rs = Some (m, g) \<Longrightarrow> \<exists>s'. (m, g, s') \<in> set rs"
  by (cases rs) (auto simp: first_match_def)

lemma first_match_None: "first_match rs = None \<longleftrightarrow> rs = []"
  by (cases rs) (auto simp: first_match_def)

lemma search_from_Some:
  "search_from ic r prev s = Some (m, g) \<Longrightarrow>
     \<exists>prev' s0 s'. (m, g, s') \<in> set (rmatch ic r prev' s0)"
proof (induction s arbitrary: prev)
  case Nil
  then show ?case using first_match_Some by fastforce
next
  case (Cons c cs)
  show ?case
  proof (cases "first_match (rmatch ic r prev (c # cs))")
    case None
    with Cons show ?thesis by simp
  next
    case (Some x)
    with Cons.prems have "first_match (rmatch ic r prev (c # cs)) = Some (m, g)" by simp
    then show ?thesis using first_match_Some by fast
  qed
qed

lemma code_less_256: "code c < 256"
  by (simp add: code_def)

lemma code_char_of: "code (char_of n) = n mod 256"
  by (simp add: code_def)

lemma code_lower:
  "code (lower c) =
     (if between 65 90 (code c) \<or> between 192 214 (code c) \<or> between 216 222 (code c)
      then code c + 32 else code c)"
  by (auto simp: lower_def code_char_of between_def)

lemma code_upper:
  "code (upper c) =
     (if between 97 122 (code c) \<or> between 224 246 (code c) \<or> between 248 254 (code c)
      then code c - 32 else code c)"
  using code_less_256 [of c]
  by (auto simp: upper_def code_char_of between_def)

lemma upper_range_icase:
  "atom_match True (In [Range CHR ''A'' CHR ''Z'']) c = is_ascii_letter c"
  by (auto simp: code_lower code_upper is_ascii_letter_def between_def code_def [of "CHR ''A''"] code_def [of "CHR ''Z''"])

lemma lower_range_icase:
  "atom_match True (In [Range CHR ''a'' CHR ''z'']) c = is_ascii_letter c"
  by (auto simp: code_lower code_upper is_ascii_letter_def between_def code_def [of "CHR ''a''"] code_def [of "CHR ''z''"])

lemma letter_not_space: "is_ascii_letter c \<Longrightarrow> \<not> is_space c"
  by (auto simp: is_ascii_letter_def is_space_def between_def)

lemma strip_eq_Nil: "strip s = [] \<longleftrightarrow> list_all is_space s"
proof
  assume "strip s = []"
  then have all: "\<forall>x \<in> set (dropWhile is_space s). is_space x"
    by (simp add: strip_def lstrip_def dropWhile_eq_Nil_conv)
  have "dropWhile is_space s = []"
  proof (rule ccontr)
    assume ne: "dropWhile is_space s \<noteq> []"
    then have "\<not> is_space (hd (dropWhile is_space s))" by (rule hd_dropWhile)
    moreover have "hd (dropWhile is_space s) \<in> set (dropWhile is_space s)"
      using ne by (rule hd_in_set)
    ultimately show False using all by blast
  qed
  then show "list_all is_space s"
    by (simp add: dropWhile_eq_Nil_conv list_all_iff)
next
  assume "list_all is_space s"
  then have "dropWhile is_space s = []"
    by (simp add: dropWhile_eq_Nil_conv list_all_iff)
  then show "strip s = []"
    unfolding strip_def lstrip_def by (simp del: dropWhile_eq_Nil_conv)
qed

lemma strip_nonempty: "c \<in> set s \<Longrightarrow> \<not> is_space c \<Longrightarrow> strip s \<noteq> []"
  by (auto simp: strip_eq_Nil list_all_iff)

lemma cap_word_match:
  assumes "(m, g, s') \<in> set (rmatch True cap_word prev s)"
  shows "\<exists>c cs. m = c # cs \<and> is_ascii_letter c \<and> g = []"
  using assms
  by (auto simp: cap_word_def plus_of_def in_rmatch_Seq in_rmatch_Atom in_rmatch_Rep
      upper_range_icase simp del: rmatch.simps atom_match.simps)

lemma name_line_match_nonempty:
  assumes "re_match True name_line_re s = Some m"
  shows "strip (group0 m) \<noteq> []"
proof -
  obtain m0 g where m: "m = (m0, g)" by (cases m)
  with assms obtain s' where "(m0, g, s') \<in> set (rmatch True name_line_re None s)"
    unfolding re_match_def using first_match_Some by blast
  then obtain c cs where "m0 = c # cs" "is_ascii_letter c"
    by (auto simp: name_line_re_def in_rmatch_Seq in_rmatch_Bol in_rmatch_Group
        simp del: rmatch.simps dest!: cap_word_match)
  then show ?thesis
    using strip_nonempty [of c m0] letter_not_space m by (simp add: group0_def)
qed

lemma re_search_Bol:
  "re_search ic (Seq Bol r) s = first_match (rmatch ic (Seq Bol r) None s)"
proof -
  have none: "rmatch ic (Seq Bol r) (Some c) s0 = []" for c s0
    by simp
  have later: "search_from ic (Seq Bol r) (Some c) s0 = None" for c s0
  proof (induction s0 arbitrary: c)
    case Nil
    show ?case using none by (simp add: first_match_def del: rmatch.simps)
  next
    case (Cons x xs)
    show ?case using none Cons by (simp add: first_match_def del: rmatch.simps)
  qed
  show ?thesis
    unfolding re_search_def
    by (cases s) (auto simp: later simp del: rmatch.simps split: option.splits)
qed

lemma name_label_match_group:
  assumes "re_search True name_label_re s = Some m"
  shows "\<exists>g. group m 1 = Some g \<and> strip g \<noteq> []"
proof -
  obtain m0 g where m: "m = (m0, g)" by (cases m)
  have "re_search True name_label_re s = first_match (rmatch True name_label_re None s)"
    unfolding name_label_re_def seq.simps by (rule re_search_Bol)
  with assms m obtain s' where "(m0, g, s') \<in> set (rmatch True name_label_re None s)"
    using first_match_Some by metis
  then obtain c cs where "g = [(1, c # cs)]" "is_ascii_letter c"
    by (auto simp: name_label_re_def lit_def star_of_def in_rmatch_Seq in_rmatch_Bol
        in_rmatch_Group in_rmatch_Atom in_rmatch_Rep
        simp del: rmatch.simps atom_match.simps dest!: cap_word_match)
  then show ?thesis
    using strip_nonempty [of c "c # cs"] letter_not_space m by (simp add: group_def)
qed

lemma rmatch_SeqE:
  assumes "(m, g, s') \<in> set (rmatch ic (Seq a b) prev s)"
  obtains m1 g1 s1 m2 g2 where "(m1, g1, s1) \<in> set (rmatch ic a prev s)"
    and "(m2, g2, s') \<in> set (rmatch ic b (prev_after prev m1) s1)"
    and "m = m1 @ m2" and "g = g1 @ g2"
  using assms unfolding in_rmatch_Seq by blast

section \<open>The pipeline computes the cascade\<close>

lemma map_of_setitem:
  "map_of (setitem d k v) k' = (if k' = k then Some v else map_of d k')"
  by (simp add: setitem_def update_conv')

lemma ent_step_result:
  assumes "map_of d ''name'' = Some (Str n)"
    and "map_of d ''location'' = Some (Str l)"
    and "map_of d ''skills'' = Some (StrList sk)"
  shows "ent_step d e = Inr
     (if is_person e \<and> n = [] then setitem d ''name'' (Str (strip (ent_text e)))
      else if is_location e \<and> l = [] then setitem d ''location'' (Str (strip (ent_text e)))
      else if is_skill e then setitem d ''skills'' (StrList (sk @ [strip (ent_text e)]))
      else d)"
  using assms
  by (auto simp: ent_step_def is_unset_def getitem_def ebind_def truthy_def list_append_def
      is_person_def is_location_def is_skill_def)

lemma first_text_Cons:
  "first_text ok (e # ents) =
     (if ok e \<and> strip (ent_text e) \<noteq> [] then strip (ent_text e) else first_text ok ents)"
  by (simp add: first_text_def)

lemma first_text_Nil: "first_text ok [] = []"
  by (simp add: first_text_def)

lemma ent_loop_result:
  assumes "map_of d ''name'' = Some (Str n)"
    and "map_of d ''location'' = Some (Str l)"
    and "map_of d ''skills'' = Some (StrList sk)"
  shows "\<exists>d'. for_each ent_step d ents = Inr d'
     \<and> (\<forall>k. map_of d' k =
          (if k = ''name'' then Some (Str (if n \<noteq> [] then n else first_text is_person ents))
           else if k = ''location''
             then Some (Str (if l \<noteq> [] then l else first_text is_location ents))
           else if k = ''skills''
             then Some (StrList (sk @ trimmed_texts (filter is_skill ents)))
           else map_of d k))"
  using assms
proof (induction ents arbitrary: d n l sk)
  case Nil
  then show ?case by (simp add: first_text_Nil trimmed_texts_def)
next
  case (Cons e ents)
  let ?t = "strip (ent_text e)"
  have lab: "is_person e \<Longrightarrow> \<not> is_location e \<and> \<not> is_skill e"
     "is_location e \<Longrightarrow> \<not> is_skill e"
    by (auto simp: is_person_def is_location_def is_skill_def)
  consider (person) "is_person e" "n = []"
    | (loc) "\<not> (is_person e \<and> n = [])" "is_location e" "l = []"
    | (skill) "\<not> (is_person e \<and> n = [])" "\<not> (is_location e \<and> l = [])" "is_skill e"
    | (other) "\<not> (is_person e \<and> n = [])" "\<not> (is_location e \<and> l = [])" "\<not> is_skill e"
    by blast
  then show ?case
  proof cases
    case person
    let ?d1 = "setitem d ''name'' (Str ?t)"
    have step: "ent_step d e = Inr ?d1"
      using ent_step_result [OF Cons.prems, of e] person by simp
    have "\<exists>d'. for_each ent_step ?d1 ents = Inr d' \<and> (\<forall>k. map_of d' k =
          (if k = ''name'' then Some (Str (if ?t \<noteq> [] then ?t else first_text is_person ents))
           else if k = ''location''
             then Some (Str (if l \<noteq> [] then l else first_text is_location ents))
           else if k = ''skills''
             then Some (StrList (sk @ trimmed_texts (filter is_skill ents)))
           else map_of ?d1 k))"
      by (rule Cons.IH) (simp_all add: map_of_setitem Cons.prems)
    then show ?thesis
      using person lab by (auto simp: step ebind_def first_text_Cons map_of_setitem)
  next
    case loc
    let ?d1 = "setitem d ''location'' (Str ?t)"
    have step: "ent_step d e = Inr ?d1"
      using ent_step_result [OF Cons.prems, of e] loc by auto
    have "\<exists>d'. for_each ent_step ?d1 ents = Inr d' \<and> (\<forall>k. map_of d' k =
          (if k = ''name'' then Some (Str (if n \<noteq> [] then n else first_text is_person ents))
           else if k = ''location''
             then Some (Str (if ?t \<noteq> [] then ?t else first_text is_location ents))
           else if k = ''skills''
             then Some (StrList (sk @ trimmed_texts (filter is_skill ents)))
           else map_of ?d1 k))"
      by (rule Cons.IH) (simp_all add: map_of_setitem Cons.prems)
    then show ?thesis
      using loc lab by (auto simp: step ebind_def first_text_Cons map_of_setitem)
  next
    case skill
    let ?d1 = "setitem d ''skills'' (StrList (sk @ [?t]))"
    have step: "ent_step d e = Inr ?d1"
      using ent_step_result [OF Cons.prems, of e] skill by auto
    have "\<exists>d'. for_each ent_step ?d1 ents = Inr d' \<and> (\<forall>k. map_of d' k =
          (if k = ''name'' then Some (Str (if n \<noteq> [] then n else first_text is_person ents))
           else if k = ''location''
             then Some (Str (if l \<noteq> [] then l else first_text is_location ents))
           else if k = ''skills''
             then Some (StrList ((sk @ [?t]) @ trimmed_texts (filter is_skill ents)))
           else map_of ?d1 k))"
      by (rule Cons.IH) (simp_all add: map_of_setitem Cons.prems)
    then show ?thesis
      using skill lab by (auto simp: step ebind_def first_text_Cons map_of_setitem trimmed_texts_def)
  next
    case other
    have step: "ent_step d e = Inr d"
      using ent_step_result [OF Cons.prems, of e] other by auto
    have "\<exists>d'. for_each ent_step d ents = Inr d' \<and> (\<forall>k. map_of d' k =
          (if k = ''name'' then Some (Str (if n \<noteq> [] then n else first_text is_person ents))
           else if k = ''location''
             then Some (Str (if l \<noteq> [] then l else first_text is_location ents))
           else if k = ''skills''
             then Some (StrList (sk @ trimmed_texts (filter is_skill ents)))
           else map_of d k))"
      by (rule Cons.IH) (simp_all add: Cons.prems)
    then show ?thesis
      using other lab by (auto simp: step ebind_def first_text_Cons trimmed_texts_def)
  qed
qed

lemma parse_name_after_set:
  "parse_name hn (setitem d ''name'' (Str n)) = Inr (with_name hn d n)"
  by (simp add: parse_name_def getitem_def map_of_setitem ebind_def with_name_def)

lemma map_of_with_name:
  "map_of (with_name hn d n) k =
     (if k = ''name'' then Some (Str n)
      else if k = ''First Name'' then Some (Str (strip (fst (hn n))))
      else if k = ''Last Name'' then Some (Str (strip (snd (hn n))))
      else map_of d k)"
  by (simp add: with_name_def map_of_setitem)

lemma name_line_loop_result:
  "name_line_loop hn d ls =
     Inr (case first_some name_from_line ls of None \<Rightarrow> d | Some n \<Rightarrow> with_name hn d n)"
  by (induction ls) (auto simp: name_from_line_def parse_name_after_set split: option.splits)

lemma name_from_line_nonempty: "name_from_line l = Some n \<Longrightarrow> n \<noteq> []"
  by (auto simp: name_from_line_def dest: name_line_match_nonempty)

lemma first_some_witness:
  "first_some f xs = Some y \<Longrightarrow> \<exists>x \<in> set xs. f x = Some y"
  by (induction xs) (auto split: option.splits)

lemma first_line_name_nonempty: "first_some name_from_line ls = Some n \<Longrightarrow> n \<noteq> []"
  by (auto dest!: first_some_witness name_from_line_nonempty)

lemma name_label_loop_result:
  "name_label_loop hn d ls =
     Inr (case first_some name_from_label ls of None \<Rightarrow> d | Some n \<Rightarrow> with_name hn d n)"
proof (induction ls)
  case Nil
  show ?case by simp
next
  case (Cons l ls)
  show ?case
  proof (cases "re_search True name_label_re (strip l)")
    case None
    with Cons show ?thesis by (simp add: name_from_label_def)
  next
    case (Some m)
    then obtain g where "group m 1 = Some g"
      using name_label_match_group by blast
    with Some show ?thesis
      by (simp add: name_from_label_def parse_name_after_set)
  qed
qed

lemma name_from_label_nonempty: "name_from_label l = Some n \<Longrightarrow> n \<noteq> []"
  by (auto simp: name_from_label_def split: option.splits dest: name_label_match_group)

lemma first_label_name_nonempty: "first_some name_from_label ls = Some n \<Longrightarrow> n \<noteq> []"
  by (auto dest!: first_some_witness name_from_label_nonempty)

lemma with_name_same:
  "map_of d ''name'' = Some (Str n) \<Longrightarrow> map_of (with_name hn d n) = map_of
     (setitem (setitem d ''First Name'' (Str (strip (fst (hn n)))))
              ''Last Name'' (Str (strip (snd (hn n)))))"
  by (rule ext) (simp add: map_of_with_name map_of_setitem)

lemma name_stage_result:
  assumes "map_of d1 ''name'' = Some (Str n)"
  shows "\<exists>d4. name_stage hn lines d1 = Inr d4
     \<and> (\<forall>k. map_of d4 k =
          (if (if n \<noteq> [] then n else fallback_name lines) = [] then map_of d1 k
           else map_of (with_name hn d1 (if n \<noteq> [] then n else fallback_name lines)) k))"
proof (cases "n = []")
  case False
  let ?d2 = "setitem (setitem d1 ''First Name'' (Str (strip (fst (hn n)))))
              ''Last Name'' (Str (strip (snd (hn n))))"
  have "name_stage hn lines d1 = Inr ?d2"
    using assms False
    by (simp add: name_stage_def getitem_def ebind_def truthy_def parse_name_def is_unset_def
        map_of_setitem)
  then show ?thesis
    using False assms by (simp add: with_name_same)
next
  case True
  note n = True
  show ?thesis
  proof (cases "first_some name_from_line (take 10 lines)")
    case (Some x)
    then have x: "x \<noteq> []" by (rule first_line_name_nonempty)
    have "name_stage hn lines d1 = Inr (with_name hn d1 x)"
      using assms n Some x
      by (simp add: name_stage_def getitem_def ebind_def truthy_def is_unset_def
          name_line_loop_result map_of_with_name)
    then show ?thesis
      using n Some x by (simp add: fallback_name_def)
  next
    case None
    show ?thesis
    proof (cases "first_some name_from_label lines")
      case (Some y)
      then have y: "y \<noteq> []" by (rule first_label_name_nonempty)
      have "name_stage hn lines d1 = Inr (with_name hn d1 y)"
        using assms n None Some
        by (simp add: name_stage_def getitem_def ebind_def truthy_def is_unset_def
            name_line_loop_result name_label_loop_result)
      then show ?thesis
        using n None Some y by (simp add: fallback_name_def)
    next
      case none2: None
      have "name_stage hn lines d1 = Inr d1"
        using assms n None none2
        by (simp add: name_stage_def getitem_def ebind_def truthy_def is_unset_def
            name_line_loop_result name_label_loop_result)
      then show ?thesis
        using n None none2 by (simp add: fallback_name_def)
    qed
  qed
qed

lemma map_of_email_stage:
  "map_of (email_stage txt d) k =
     (if k = ''email'' \<and> found False email_re txt \<noteq> None
      then Some (Str (or_empty (found False email_re txt))) else map_of d k)"
  by (simp add: email_stage_def found_def or_empty_def map_of_setitem split: option.splits)

lemma map_of_link_stage:
  "map_of (link_stage key pat txt d) k =
     (if k = key \<and> found True pat txt \<noteq> None
      then map_option Str (found True pat txt) else map_of d k)"
  by (auto simp: link_stage_def found_def map_of_setitem split: option.splits)

lemma map_of_phone_loop:
  "map_of (phone_loop d cands) k =
     (case find is_valid_phone cands of
        Some p \<Rightarrow> if k = ''phone'' then Some (Str p) else map_of d k
      | None \<Rightarrow> map_of d k)"
  by (induction cands) (simp_all add: map_of_setitem)

lemma valid_phone_nonempty: "is_valid_phone p \<Longrightarrow> p \<noteq> []"
  by (auto simp: is_valid_phone_def re_sub_atom_def)

lemma find_valid_phone: "find is_valid_phone cands = Some p \<Longrightarrow> is_valid_phone p"
  by (induction cands) (auto split: if_splits)

lemma phone_stage_unfold:
  "phone_stage ents txt d = phone_fallback txt (phone_loop d (trimmed_texts (filter is_phone ents)))"
  by (simp add: phone_stage_def trimmed_texts_def is_phone_def [abs_def])

lemma phone_fallback_result:
  assumes "map_of d ''phone'' = Some (Str x)"
  shows "phone_fallback txt d =
     Inr (if x \<noteq> [] then d
          else (case re_search False phone_re txt of
                  Some m \<Rightarrow> if is_valid_phone (group0 m)
                            then setitem d ''phone'' (Str (group0 m)) else d
                | None \<Rightarrow> d))"
  using assms
  by (simp add: phone_fallback_def is_unset_def getitem_def ebind_def truthy_def
      split: option.splits)

lemma phone_stage_result:
  assumes "map_of d ''phone'' = Some (Str [])"
  shows "\<exists>d'. phone_stage ents txt d = Inr d'
     \<and> (\<forall>k. map_of d' k =
           (if k = ''phone'' then Some (Str (resolve_phone ents txt)) else map_of d k))"
proof (cases "find is_valid_phone (trimmed_texts (filter is_phone ents))")
  case (Some p)
  let ?d0 = "phone_loop d (trimmed_texts (filter is_phone ents))"
  have p: "p \<noteq> []" using Some find_valid_phone valid_phone_nonempty by blast
  have "map_of ?d0 ''phone'' = Some (Str p)"
    using Some by (simp add: map_of_phone_loop)
  then have "phone_stage ents txt d = Inr ?d0"
    using p by (simp add: phone_stage_unfold phone_fallback_result)
  then show ?thesis
    using Some by (simp add: map_of_phone_loop resolve_phone_def)
next
  case None
  let ?d0 = "phone_loop d (trimmed_texts (filter is_phone ents))"
  have "map_of ?d0 ''phone'' = Some (Str [])"
    using None assms by (simp add: map_of_phone_loop)
  then have "phone_stage ents txt d =
     Inr (case re_search False phone_re txt of
                  Some m \<Rightarrow> if is_valid_phone (group0 m)
                            then setitem ?d0 ''phone'' (Str (group0 m)) else ?d0
                | None \<Rightarrow> ?d0)"
    by (simp add: phone_stage_unfold phone_fallback_result)
  then show ?thesis
    using None assms
    by (auto simp: map_of_phone_loop resolve_phone_def map_of_setitem split: option.splits)
qed

lemma map_of_init_info:
  "map_of init_info k =
     (if k = ''name'' \<or> k = ''email'' \<or> k = ''phone'' \<or> k = ''location'' then Some (Str [])
      else if k = ''skills'' then Some (StrList []) else None)"
  by (simp add: init_info_def)

lemma extract_info_refines:
  "\<exists>d. extract_info_with_spacy_regex nlp hn txt = Inr d
     \<and> (\<forall>k. map_of d k = expected_record nlp hn txt k)"
proof -
  let ?ents = "nlp txt"
  let ?lines = "splitlines txt"
  let ?n = "first_text is_person ?ents"
  let ?nm = "if ?n \<noteq> [] then ?n else fallback_name ?lines"
  obtain d1 where d1: "for_each ent_step init_info ?ents = Inr d1"
    and m1: "\<And>k. map_of d1 k =
          (if k = ''name'' then Some (Str ?n)
           else if k = ''location'' then Some (Str (first_text is_location ?ents))
           else if k = ''skills'' then Some (StrList (trimmed_texts (filter is_skill ?ents)))
           else map_of init_info k)"
    using ent_loop_result [of init_info "[]" "[]" "[]" "?ents"]
    by (auto simp: map_of_init_info)
  obtain d4 where d4: "name_stage hn ?lines d1 = Inr d4"
    and m4: "\<And>k. map_of d4 k =
          (if ?nm = [] then map_of d1 k else map_of (with_name hn d1 ?nm) k)"
    using name_stage_result [of d1 "?n" hn "?lines"] m1 by auto
  let ?d5 = "email_stage txt d4"
  have "map_of ?d5 ''phone'' = Some (Str [])"
    by (simp add: map_of_email_stage m4 map_of_with_name m1 map_of_init_info)
  then obtain d7 where d7: "phone_stage ?ents txt ?d5 = Inr d7"
    and m7: "\<And>k. map_of d7 k =
           (if k = ''phone'' then Some (Str (resolve_phone ?ents txt)) else map_of ?d5 k)"
    using phone_stage_result [of "?d5" "?ents" "txt"] by auto
  let ?d = "link_stage ''github'' github_re txt (link_stage ''linkedin'' linkedin_re txt d7)"
  have run: "extract_info_with_spacy_regex nlp hn txt = Inr ?d"
    by (simp add: extract_info_with_spacy_regex_def Let_def d1 d4 d7 ebind_def)
  have "map_of ?d k = expected_record nlp hn txt k" for k
    by (simp add: map_of_link_stage m7 map_of_email_stage m4 map_of_with_name m1
        map_of_init_info expected_record_def Let_def resolve_name_def or_empty_def
        split: option.splits)
  with run show ?thesis by blast
qed

section \<open>Properties of the validator\<close>

lemma re_sub_strip_non_digits:
  "re_sub_atom False (NotIn [CDigit]) [] s = filter is_digit s"
  by (induction s) (simp_all add: re_sub_atom_def)

text \<open>
  C2. \<open>is_valid_phone\<close> accepts a string exactly when what is left of it after removing every
  non-digit character has between 10 and 13 characters; so it rejects when 9 or fewer, or 14 or
  more, are left. \<^verbatim>\<open>"+91 98765 43210"\<close> leaves the 12 digits \<^verbatim>\<open>919876543210\<close> and is accepted.
\<close>

theorem is_valid_phone_iff:
  "(is_valid_phone s \<longleftrightarrow>
      10 \<le> length (filter is_digit s) \<and> length (filter is_digit s) \<le> 13)
   \<and> filter is_digit ''+91 98765 43210'' = ''919876543210''
   \<and> is_valid_phone ''+91 98765 43210''"
  by (simp add: is_valid_phone_def re_sub_strip_non_digits Let_def is_digit_def between_def code_def)

section \<open>The PDF endpoint and the content type\<close>

text \<open>
  C1. A request to the PDF endpoint whose declared content type is not
  \<^verbatim>\<open>application/pdf\<close> should fail with the bad-input error (status 400) at once, with no
  text extraction attempted. The code raises that error inside its own \<^verbatim>\<open>try\<close>, whose
  \<^verbatim>\<open>except Exception\<close> clause catches it: for the content type \<^verbatim>\<open>text/plain\<close> the caller
  gets the processing error (status 500) that wraps it. No collaborator has been called.
\<close>

theorem parse_resume_pdf_non_pdf_is_500:
  "parse_resume_pdf exn_str open_doc get_text ocr nlp hn
     \<lparr>content_type = ''text/plain'', file_bytes = b\<rparr> =
   (Inl (HTTPException 500
          (''Error processing PDF: '' @ exn_str (HTTPException 400 ''File must be a PDF''))), [])"
  by (simp add: parse_resume_pdf_def parse_resume_pdf_body_def)

section \<open>Text extraction and the OCR fallback\<close>

lemma text_loop_eq:
  "text_loop get_text pages (acc, lg) =
     (acc @ concat (map get_text pages), lg @ map GetText pages)"
  by (induction pages arbitrary: acc lg) simp_all

lemma ocr_loop_eq:
  "ocr_loop ocr pages (acc, lg) =
     (acc @ concat (map (\<lambda>p. ocr p @ [CHR 0x0A]) pages), lg @ map OcrPage pages)"
  by (induction pages arbitrary: acc lg) simp_all

text \<open>
  C8, as the code has it. For a document that opens with the pages \<open>pages\<close>: the direct text of
  every page is read, in page order. When the concatenated direct text, stripped, has fewer than
  100 characters, the OCR path is entered, OCR runs once on every page in page order, and the
  returned text is every page's OCR text followed by a newline, concatenated in page order; the
  direct text is not part of it. Otherwise the OCR path is not entered and the direct text is
  returned. (The log lists the collaborator calls in the order they are made.)
\<close>

theorem extract_text_from_pdf_ocr_fallback:
  assumes "open_doc b = Inr pages"
  shows "extract_text_from_pdf open_doc get_text ocr b [] =
     (if length (strip (concat (map get_text pages))) < 100
      then (Inr (concat (map (\<lambda>p. ocr p @ [CHR 0x0A]) pages)),
            [OpenDoc] @ map GetText pages @ [OcrStart, OpenDoc] @ map OcrPage pages)
      else (Inr (concat (map get_text pages)), [OpenDoc] @ map GetText pages))"
  using assms
  by (simp add: extract_text_from_pdf_def extract_text_with_ocr_def text_loop_eq ocr_loop_eq)

theorem extract_text_from_pdf_ocr_fallback_witness:
  "two_pages () = Inr [0, 1] \<and>
   extract_text_from_pdf two_pages no_text_layer ocr_x () [] =
     (Inr [CHR ''x'', CHR 0x0A, CHR ''x'', CHR 0x0A],
      [OpenDoc, GetText 0, GetText 1, OcrStart, OpenDoc, OcrPage 0, OcrPage 1])"
proof -
  have h: "two_pages () = Inr [0, 1]" by (simp add: two_pages_def)
  show ?thesis
    using h extract_text_from_pdf_ocr_fallback
            [where open_doc = two_pages and b = "()" and get_text = no_text_layer
               and ocr = ocr_x, OF h]
    by (simp add: no_text_layer_def ocr_x_def strip_def lstrip_def)
qed

text \<open>
  The claim as worded fails: for one page whose OCR text is \<^verbatim>\<open>x\<close> the code returns
  \<^verbatim>\<open>x\<close> followed by a newline, and the newline-joined text of that one page is \<^verbatim>\<open>x\<close>.
\<close>

theorem ocr_text_is_not_newline_joined:
  "fst (extract_text_from_pdf one_page no_text_layer ocr_x () [])
     \<noteq> Inr (newline_join (map ocr_x [0]))"
  by (simp add: extract_text_from_pdf_def extract_text_with_ocr_def one_page_def
      no_text_layer_def ocr_x_def strip_def lstrip_def)

section \<open>Claims about the extraction pipeline\<close>

text \<open>
  C10. For every text, every recognizer and every name parser the pipeline returns a record;
  it never raises. So the error branch of the text endpoint is never taken: the endpoint returns
  what the pipeline returns. With no entity and an empty text the record returned is the one
  with every field empty.
\<close>

theorem extract_info_never_raises:
  "(\<exists>d. extract_info_with_spacy_regex nlp hn resume = Inr d)
   \<and> parse_resume exn_str nlp hn resume = extract_info_with_spacy_regex nlp hn resume
   \<and> extract_info_with_spacy_regex no_ents hn [] = Inr init_info"
proof -
  obtain d where d: "extract_info_with_spacy_regex nlp hn resume = Inr d"
    using extract_info_refines by blast
  have "extract_info_with_spacy_regex no_ents hn [] = Inr init_info"
    by code_simp
  with d show ?thesis by (simp add: parse_resume_def)
qed

text \<open>
  C7. The \<^verbatim>\<open>skills\<close> field of the result is the list of the trimmed texts of all spans
  labelled \<^verbatim>\<open>SKILL\<close>, in the order of the spans, duplicates kept: the spans
  \<^verbatim>\<open>SKILL:Python, SKILL:Go, SKILL:Python\<close> give \<^verbatim>\<open>[Python, Go, Python]\<close>.
\<close>

theorem skills_in_encounter_order:
  "(\<exists>d. extract_info_with_spacy_regex nlp hn resume = Inr d
        \<and> map_of d ''skills'' = Some (StrList (trimmed_texts (filter is_skill (nlp resume)))))
   \<and> (\<exists>d. extract_info_with_spacy_regex
              (const_ents [\<lparr>ent_text = ''Python'', ent_label = ''SKILL''\<rparr>,
                           \<lparr>ent_text = ''Go'', ent_label = ''SKILL''\<rparr>,
                           \<lparr>ent_text = ''Python'', ent_label = ''SKILL''\<rparr>]) hn resume = Inr d
        \<and> map_of d ''skills'' = Some (StrList [''Python'', ''Go'', ''Python'']))"
proof -
  have gen: "\<exists>d. extract_info_with_spacy_regex r hn resume = Inr d
        \<and> map_of d ''skills'' = Some (StrList (trimmed_texts (filter is_skill (r resume))))" for r
    using extract_info_refines [of r hn resume] by (auto simp: expected_record_def Let_def)
  have "trimmed_texts (filter is_skill
          [\<lparr>ent_text = ''Python'', ent_label = ''SKILL''\<rparr>,
           \<lparr>ent_text = ''Go'', ent_label = ''SKILL''\<rparr>,
           \<lparr>ent_text = ''Python'', ent_label = ''SKILL''\<rparr>]) = [''Python'', ''Go'', ''Python'']"
    by code_simp
  then show ?thesis
    using gen [of nlp] gen [of "const_ents [\<lparr>ent_text = ''Python'', ent_label = ''SKILL''\<rparr>,
                           \<lparr>ent_text = ''Go'', ent_label = ''SKILL''\<rparr>,
                           \<lparr>ent_text = ''Python'', ent_label = ''SKILL''\<rparr>]"]
    by (simp add: const_ents_def)
qed

text \<open>
  C5, as the code has it. Every result has \<^verbatim>\<open>name\<close>, \<^verbatim>\<open>email\<close>, \<^verbatim>\<open>phone\<close> and
  \<^verbatim>\<open>location\<close> as strings and \<^verbatim>\<open>skills\<close> as a list. Each holds what its cascade
  resolves, and the empty string or the empty list when the cascade resolves nothing: the name
  of \<open>resolve_name\<close>, the first match of the e-mail pattern, the phone of \<open>resolve_phone\<close>,
  the first location span with a non-empty trimmed text, the trimmed texts of the skill spans.
  The keys \<^verbatim>\<open>First Name\<close> and \<^verbatim>\<open>Last Name\<close> are present exactly when the name is not
  empty, and then hold the trimmed parts the name parser gives; \<^verbatim>\<open>linkedin\<close> and
  \<^verbatim>\<open>github\<close> are present exactly when their pattern matches the text, and then hold the
  match. The result has no other key.
\<close>

theorem result_fields:
  "\<exists>d. extract_info_with_spacy_regex nlp hn resume = Inr d
    \<and> map_of d ''name'' = Some (Str (resolve_name (nlp resume) (splitlines resume)))
    \<and> map_of d ''email'' =
         Some (Str (case re_search False email_re resume of None \<Rightarrow> [] | Some m \<Rightarrow> group0 m))
    \<and> map_of d ''phone'' = Some (Str (resolve_phone (nlp resume) resume))
    \<and> map_of d ''location'' = Some (Str (first_text is_location (nlp resume)))
    \<and> map_of d ''skills'' = Some (StrList (trimmed_texts (filter is_skill (nlp resume))))
    \<and> map_of d ''First Name'' =
         (if resolve_name (nlp resume) (splitlines resume) = [] then None
          else Some (Str (strip (fst (hn (resolve_name (nlp resume) (splitlines resume)))))))
    \<and> map_of d ''Last Name'' =
         (if resolve_name (nlp resume) (splitlines resume) = [] then None
          else Some (Str (strip (snd (hn (resolve_name (nlp resume) (splitlines resume)))))))
    \<and> map_of d ''linkedin'' =
         (case re_search True linkedin_re resume of None \<Rightarrow> None | Some m \<Rightarrow> Some (Str (group0 m)))
    \<and> map_of d ''github'' =
         (case re_search True github_re resume of None \<Rightarrow> None | Some m \<Rightarrow> Some (Str (group0 m)))
    \<and> set (map fst d) \<subseteq> set [''name'', ''email'', ''phone'', ''location'', ''skills'',
                                 ''First Name'', ''Last Name'', ''linkedin'', ''github'']"
proof -
  obtain d where d: "extract_info_with_spacy_regex nlp hn resume = Inr d"
    and m: "\<And>k. map_of d k = expected_record nlp hn resume k"
    using extract_info_refines [of nlp hn resume] by blast
  let ?nm = "resolve_name (nlp resume) (splitlines resume)"
  have c1: "map_of d ''name'' = Some (Str ?nm)"
    by (simp add: m expected_record_def Let_def)
  have c2: "map_of d ''email'' =
         Some (Str (case re_search False email_re resume of None \<Rightarrow> [] | Some m \<Rightarrow> group0 m))"
    by (simp add: m expected_record_def Let_def or_empty_def found_def split: option.splits)
  have c3: "map_of d ''phone'' = Some (Str (resolve_phone (nlp resume) resume))"
    by (simp add: m expected_record_def Let_def)
  have c4: "map_of d ''location'' = Some (Str (first_text is_location (nlp resume)))"
    by (simp add: m expected_record_def Let_def)
  have c5: "map_of d ''skills'' = Some (StrList (trimmed_texts (filter is_skill (nlp resume))))"
    by (simp add: m expected_record_def Let_def)
  have c6: "map_of d ''First Name'' =
      (if ?nm = [] then None else Some (Str (strip (fst (hn ?nm)))))"
    by (simp add: m expected_record_def Let_def)
  have c7: "map_of d ''Last Name'' =
      (if ?nm = [] then None else Some (Str (strip (snd (hn ?nm)))))"
    by (simp add: m expected_record_def Let_def)
  have c8: "map_of d ''linkedin'' =
      (case re_search True linkedin_re resume of None \<Rightarrow> None | Some m \<Rightarrow> Some (Str (group0 m)))"
    by (simp add: m expected_record_def Let_def found_def split: option.splits)
  have c9: "map_of d ''github'' =
      (case re_search True github_re resume of None \<Rightarrow> None | Some m \<Rightarrow> Some (Str (group0 m)))"
    by (simp add: m expected_record_def Let_def found_def split: option.splits)
  have c10: "set (map fst d) \<subseteq> set [''name'', ''email'', ''phone'', ''location'', ''skills'',
                                 ''First Name'', ''Last Name'', ''linkedin'', ''github'']"
  proof
    fix k assume "k \<in> set (map fst d)"
    then have "map_of d k \<noteq> None"
      by (simp add: map_of_eq_None_iff)
    then have "expected_record nlp hn resume k \<noteq> None"
      by (simp add: m)
    then have ex: "expected_record nlp hn resume k \<noteq> None" .
    show "k \<in> set [''name'', ''email'', ''phone'', ''location'', ''skills'',
                                 ''First Name'', ''Last Name'', ''linkedin'', ''github'']"
    proof (rule ccontr)
      assume "k \<notin> set [''name'', ''email'', ''phone'', ''location'', ''skills'',
                                 ''First Name'', ''Last Name'', ''linkedin'', ''github'']"
      then have "expected_record nlp hn resume k = None"
        by (simp add: expected_record_def Let_def)
      with ex show False by simp
    qed
  qed
  from d c1 c2 c3 c4 c5 c6 c7 c8 c9 c10 show ?thesis
    by (intro exI [where x = d] conjI)
qed

text \<open>
  The claim as worded fails: with no entity and an empty text the result is the initial record,
  which has neither \<^verbatim>\<open>First Name\<close> nor \<^verbatim>\<open>Last Name\<close>.
\<close>

theorem first_and_last_name_absent:
  "extract_info_with_spacy_regex no_ents split_name [] = Inr init_info
   \<and> map_of init_info ''First Name'' = None \<and> map_of init_info ''Last Name'' = None"
  by code_simp

text \<open>
  C3, as the code has it. When some span labelled \<^verbatim>\<open>PERSON\<close> has a trimmed text that is not
  empty, the resolved name is the trimmed text of the first such span, whatever the lines of the
  text are. With the span \<^verbatim>\<open>Jane Doe\<close> and the first line \<^verbatim>\<open>John Smith works here\<close> the
  name is \<^verbatim>\<open>Jane Doe\<close>.
\<close>

theorem person_entity_wins:
  assumes "first_text is_person (nlp resume) \<noteq> []"
  shows "\<exists>d. extract_info_with_spacy_regex nlp hn resume = Inr d
     \<and> map_of d ''name'' = Some (Str (first_text is_person (nlp resume)))"
  using extract_info_refines [of nlp hn resume] assms
  by (auto simp: expected_record_def Let_def resolve_name_def)

theorem person_entity_wins_witness:
  "first_text is_person
     (const_ents [\<lparr>ent_text = ''Jane Doe'', ent_label = ''PERSON''\<rparr>] ''John Smith works here'') \<noteq> []
   \<and> (\<exists>d. extract_info_with_spacy_regex
             (const_ents [\<lparr>ent_text = ''Jane Doe'', ent_label = ''PERSON''\<rparr>]) split_name
             ''John Smith works here'' = Inr d
         \<and> map_of d ''name'' = Some (Str ''Jane Doe''))"
proof -
  have ft: "first_text is_person
     (const_ents [\<lparr>ent_text = ''Jane Doe'', ent_label = ''PERSON''\<rparr>] ''John Smith works here'')
      = ''Jane Doe''"
    by code_simp
  then have ne: "first_text is_person
     (const_ents [\<lparr>ent_text = ''Jane Doe'', ent_label = ''PERSON''\<rparr>] ''John Smith works here'') \<noteq> []"
    by simp
  show ?thesis
    using ne person_entity_wins
            [where nlp = "const_ents [\<lparr>ent_text = ''Jane Doe'', ent_label = ''PERSON''\<rparr>]"
               and resume = "''John Smith works here''" and hn = split_name, OF ne]
    by (simp add: ft)
qed

text \<open>
  The claim as worded fails: a \<^verbatim>\<open>PERSON\<close> span whose text is one space leaves the name
  unset, and the second strategy then takes \<^verbatim>\<open>John Smith\<close> from the first line.
\<close>

theorem blank_person_span_falls_back:
  "extract_info_with_spacy_regex
     (const_ents [\<lparr>ent_text = '' '', ent_label = ''PERSON''\<rparr>]) split_name
     ''John Smith works here''
   = Inr [(''name'', Str ''John Smith''), (''email'', Str []), (''phone'', Str []),
          (''location'', Str []), (''skills'', StrList []),
          (''First Name'', Str ''John''), (''Last Name'', Str ''Smith'')]"
  by code_simp

section \<open>The name-label fallback\<close>

lemma first_text_none: "filter ok ents = [] \<Longrightarrow> first_text ok ents = []"
  by (induction ents) (auto simp: first_text_Cons first_text_Nil split: if_splits)

lemma first_some_none: "list_all (\<lambda>x. f x = None) xs \<Longrightarrow> first_some f xs = None"
  by (induction xs) simp_all

lemma first_some_skip:
  "list_all (\<lambda>x. f x = None) xs \<Longrightarrow> first_some f (xs @ ys) = first_some f ys"
  by (induction xs) simp_all

lemma alice_from_label:
  "re_search True name_label_re ''Name: Alice Johnson''
     = Some (''Name: Alice Johnson'', [(1, ''Alice Johnson'')])"
  by code_simp

lemma alice_trimmed: "strip ''Alice Johnson'' = ''Alice Johnson''"
  by code_simp

text \<open>
  C4, as the code has it. When no span is labelled \<^verbatim>\<open>PERSON\<close>, none of the first 10 lines
  matches the two-word pattern of the second strategy, and the first line of the text that the
  third pattern matches reads \<^verbatim>\<open>Name: Alice Johnson\<close> once trimmed (line 15, say), the
  resolved name is \<^verbatim>\<open>Alice Johnson\<close>, the group the third pattern captures.
\<close>

theorem name_label_fallback:
  assumes "filter is_person (nlp resume) = []"
    and "list_all no_name_line (take 10 (splitlines resume))"
    and "splitlines resume = before @ line # after"
    and "list_all no_name_label before"
    and "strip line = ''Name: Alice Johnson''"
  shows "\<exists>d. extract_info_with_spacy_regex nlp hn resume = Inr d
     \<and> map_of d ''name'' = Some (Str ''Alice Johnson'')"
proof -
  have person: "first_text is_person (nlp resume) = []"
    using assms(1) by (rule first_text_none)
  have "list_all (\<lambda>l. name_from_line l = None) (take 10 (splitlines resume))"
    using assms(2) by (simp add: list_all_iff no_name_line_def name_from_line_def)
  then have second: "first_some name_from_line (take 10 (splitlines resume)) = None"
    by (rule first_some_none)
  have "list_all (\<lambda>l. name_from_label l = None) before"
    using assms(4) by (simp add: list_all_iff no_name_label_def name_from_label_def)
  then have "first_some name_from_label (splitlines resume)
      = first_some name_from_label (line # after)"
    unfolding assms(3) by (rule first_some_skip)
  moreover have "name_from_label line = Some ''Alice Johnson''"
    by (simp add: name_from_label_def assms(5) alice_from_label group_def alice_trimmed)
  ultimately have third: "first_some name_from_label (splitlines resume) = Some ''Alice Johnson''"
    by simp
  have "resolve_name (nlp resume) (splitlines resume) = ''Alice Johnson''"
    by (simp add: resolve_name_def person fallback_name_def second third)
  then have "expected_record nlp hn resume ''name'' = Some (Str ''Alice Johnson'')"
    by (simp add: expected_record_def Let_def)
  then show ?thesis
    using extract_info_refines [of nlp hn resume] by metis
qed

lemma label_on_line_15_lines:
  "splitlines label_on_line_15 =
     [''Resume'', ''2024'', ''-'', ''-'', ''-'', ''-'', ''-'', ''-'', ''-'', ''-'', ''-'', ''-'',
      ''-'', ''-''] @ ''Name: Alice Johnson'' # []"
  by code_simp

theorem name_label_fallback_witness:
  "filter is_person (no_ents label_on_line_15) = []
   \<and> list_all no_name_line (take 10 (splitlines label_on_line_15))
   \<and> splitlines label_on_line_15 =
       [''Resume'', ''2024'', ''-'', ''-'', ''-'', ''-'', ''-'', ''-'', ''-'', ''-'', ''-'', ''-'',
        ''-'', ''-''] @ ''Name: Alice Johnson'' # []
   \<and> list_all no_name_label
       [''Resume'', ''2024'', ''-'', ''-'', ''-'', ''-'', ''-'', ''-'', ''-'', ''-'', ''-'', ''-'',
        ''-'', ''-'']
   \<and> strip ''Name: Alice Johnson'' = ''Name: Alice Johnson''
   \<and> (\<exists>d. extract_info_with_spacy_regex no_ents split_name label_on_line_15 = Inr d
          \<and> map_of d ''name'' = Some (Str ''Alice Johnson''))"
proof -
  have h1: "filter is_person (no_ents label_on_line_15) = []"
    by (simp add: no_ents_def)
  have h2: "list_all no_name_line (take 10 (splitlines label_on_line_15))"
    by code_simp
  have h4: "list_all no_name_label
       [''Resume'', ''2024'', ''-'', ''-'', ''-'', ''-'', ''-'', ''-'', ''-'', ''-'', ''-'', ''-'',
        ''-'', ''-'']"
    by code_simp
  have h5: "strip ''Name: Alice Johnson'' = ''Name: Alice Johnson''"
    by code_simp
  show ?thesis
    using h1 h2 label_on_line_15_lines h4 h5
      name_label_fallback
        [where nlp = no_ents and resume = label_on_line_15 and hn = split_name
           and line = "''Name: Alice Johnson''" and after = "[]",
         OF h1 h2 label_on_line_15_lines h4 h5]
    by blast
qed

text \<open>
  The claim as worded fails: the third strategy takes the first line that matches. With
  \<^verbatim>\<open>Name: Bob Stone\<close> on line 1, which the second pattern does not match because of the
  colon, and \<^verbatim>\<open>Name: Alice Johnson\<close> on line 15, the resolved name is \<^verbatim>\<open>Bob Stone\<close>.
\<close>

theorem earlier_label_wins:
  "filter is_person (no_ents two_labels_text) = []
   \<and> list_all no_name_line (take 10 (splitlines two_labels_text))
   \<and> splitlines two_labels_text ! 14 = ''Name: Alice Johnson''
   \<and> extract_info_with_spacy_regex no_ents split_name two_labels_text
       = Inr [(''name'', Str ''Bob Stone''), (''email'', Str []), (''phone'', Str []),
              (''location'', Str []), (''skills'', StrList []),
              (''First Name'', Str ''Bob''), (''Last Name'', Str ''Stone'')]"
  by code_simp

section \<open>The phone fallback and the validator\<close>

lemma separator_class:
  "atom_match False (In [CSpace, Lit CHR ''-'']) c = is_separator c"
  by (auto simp: is_separator_def)

lemma separator_not_digit: "is_separator c \<Longrightarrow> \<not> is_digit c"
  by (auto simp: is_separator_def is_space_def is_digit_def between_def code_def)

lemma no_digit_in_separators: "list_all is_separator sep \<Longrightarrow> filter is_digit sep = []"
  by (induction sep) (auto dest: separator_not_digit)

lemma all_digits_filter: "list_all is_digit ds \<Longrightarrow> filter is_digit ds = ds"
  by (induction ds) auto

lemma literal_char: "atom_match False (Chr x) c \<longleftrightarrow> c = x"
  by simp

lemma phone_prefix_shape:
  assumes "(mo, go, so) \<in> set (rmatch False
              (Opt (Seq (lit ''+91'') (star_of (In [CSpace, Lit CHR ''-''])))) prev s)"
  shows "mo = [] \<or> (\<exists>sep. mo = ''+91'' @ sep \<and> list_all is_separator sep)"
proof (cases "mo = []")
  case True
  then show ?thesis by simp
next
  case False
  with assms have "(mo, go, so) \<in> set (rmatch False
        (Seq (lit ''+91'') (star_of (In [CSpace, Lit CHR ''-'']))) prev s)"
    unfolding in_rmatch_Opt by simp
  then obtain m1 g1 s1 sep g2 where
      l: "(m1, g1, s1) \<in> set (rmatch False (lit ''+91'') prev s)"
    and r: "(sep, g2, so) \<in> set (rmatch False (star_of (In [CSpace, Lit CHR ''-'']))
              (prev_after prev m1) s1)"
    and mo: "mo = m1 @ sep"
    by (rule rmatch_SeqE)
  have "m1 = ''+91''"
    using l unfolding lit_def
    by (simp add: in_rmatch_Seq in_rmatch_Atom literal_char del: rmatch.simps atom_match.simps)
  moreover have "list_all is_separator sep"
    using r unfolding star_of_def in_rmatch_Rep
    by (simp add: list_all_iff separator_class del: atom_match.simps)
  ultimately show ?thesis using mo by blast
qed

lemma phone_match_shape:
  assumes "(m, g, s') \<in> set (rmatch False phone_re prev s)"
  shows "\<exists>pre ds. m = pre @ ds \<and> list_all is_digit ds \<and> 10 \<le> length ds \<and> length ds \<le> 13
     \<and> (pre = [] \<or> (\<exists>sep. pre = ''+91'' @ sep \<and> list_all is_separator sep))"
proof -
  let ?opt = "Opt (Seq (lit ''+91'') (star_of (In [CSpace, Lit CHR ''-''])))"
  have re: "phone_re = Seq WordB (Seq ?opt (Seq (Rep Dig 10 (Some 13)) WordB))"
    by (simp add: phone_re_def)
  from assms obtain m1 g1 s1 m2 g2 where
      a1: "(m1, g1, s1) \<in> set (rmatch False WordB prev s)"
    and a2: "(m2, g2, s') \<in> set (rmatch False (Seq ?opt (Seq (Rep Dig 10 (Some 13)) WordB))
               (prev_after prev m1) s1)"
    and m: "m = m1 @ m2"
    unfolding re by (rule rmatch_SeqE)
  from a2 obtain mo go so m3 g3 where
      opt: "(mo, go, so) \<in> set (rmatch False ?opt (prev_after prev m1) s1)"
    and a3: "(m3, g3, s') \<in> set (rmatch False (Seq (Rep Dig 10 (Some 13)) WordB)
               (prev_after (prev_after prev m1) mo) so)"
    and m2: "m2 = mo @ m3"
    by (rule rmatch_SeqE)
  from a3 obtain md gd sd m4 g4 where
      dig: "(md, gd, sd) \<in> set (rmatch False (Rep Dig 10 (Some 13))
               (prev_after (prev_after prev m1) mo) so)"
    and a4: "(m4, g4, s') \<in> set (rmatch False WordB
               (prev_after (prev_after (prev_after prev m1) mo) md) sd)"
    and m3: "m3 = md @ m4"
    by (rule rmatch_SeqE)
  have "m1 = []" using a1 unfolding in_rmatch_WordB by simp
  moreover have "m4 = []" using a4 unfolding in_rmatch_WordB by simp
  moreover have "list_all is_digit md \<and> 10 \<le> length md \<and> length md \<le> 13"
    using dig unfolding in_rmatch_Rep by (simp add: list_all_iff)
  moreover note phone_prefix_shape [OF opt]
  ultimately show ?thesis using m m2 m3 by auto
qed

text \<open>
  C6. Whenever the fallback pattern matches in a text, the matched string is an optional prefix
  (\<^verbatim>\<open>+91\<close> and any number of separators) followed by the 10 to 13 digits of the digit
  class, and it passes \<open>is_valid_phone\<close> except when it carries the prefix and the digit class
  matched 12 or 13 digits: the two digits of the prefix then bring the count to 14 or 15.
\<close>

theorem fallback_match_validity:
  assumes "re_search False phone_re resume = Some m"
  shows "\<exists>pre ds. group0 m = pre @ ds
     \<and> list_all is_digit ds \<and> 10 \<le> length ds \<and> length ds \<le> 13
     \<and> (pre = [] \<or> (\<exists>sep. pre = ''+91'' @ sep \<and> list_all is_separator sep))
     \<and> (is_valid_phone (group0 m) \<longleftrightarrow> \<not> (pre \<noteq> [] \<and> 12 \<le> length ds))"
proof -
  obtain m0 g where m: "m = (m0, g)" by (cases m)
  with assms obtain prev s0 s' where "(m0, g, s') \<in> set (rmatch False phone_re prev s0)"
    unfolding re_search_def using search_from_Some by blast
  from phone_match_shape [OF this] obtain pre ds where sh: "m0 = pre @ ds
     \<and> list_all is_digit ds \<and> 10 \<le> length ds \<and> length ds \<le> 13
     \<and> (pre = [] \<or> (\<exists>sep. pre = ''+91'' @ sep \<and> list_all is_separator sep))"
    by (elim exE) (erule that)
  then have shape: "m0 = pre @ ds" "list_all is_digit ds" "10 \<le> length ds"
      "length ds \<le> 13" "pre = [] \<or> (\<exists>sep. pre = ''+91'' @ sep \<and> list_all is_separator sep)"
    by simp_all
  have count: "length (filter is_digit m0) = (if pre = [] then length ds else 2 + length ds)"
  proof (cases "pre = []")
    case True
    then show ?thesis using shape(1,2) by (simp add: all_digits_filter)
  next
    case False
    with shape(5) have "\<exists>sep. pre = ''+91'' @ sep \<and> list_all is_separator sep"
      by simp
    then obtain sep where sep0: "pre = ''+91'' @ sep \<and> list_all is_separator sep"
      by (elim exE) (erule that)
    then have sep: "pre = ''+91'' @ sep" "list_all is_separator sep"
      by simp_all
    have p: "filter is_digit ''+91'' = ''91''"
      by (simp add: is_digit_def between_def code_def)
    have "filter is_digit ((''+91'' @ sep) @ ds) = ''91'' @ ds"
      by (simp only: filter_append p no_digit_in_separators [OF sep(2)]
          all_digits_filter [OF shape(2)] append_Nil2)
    then have "length (filter is_digit m0) = 2 + length ds"
      unfolding shape(1) sep(1) by simp
    then show ?thesis using False by simp
  qed
  have valid: "is_valid_phone m0 \<longleftrightarrow> \<not> (pre \<noteq> [] \<and> 12 \<le> length ds)"
  proof -
    have "is_valid_phone m0 \<longleftrightarrow>
        10 \<le> length (filter is_digit m0) \<and> length (filter is_digit m0) \<le> 13"
      by (simp add: is_valid_phone_def re_sub_strip_non_digits Let_def)
    also have "\<dots> \<longleftrightarrow> \<not> (pre \<noteq> [] \<and> 12 \<le> length ds)"
      unfolding count using shape(3,4) by (cases "pre = []") auto
    finally show ?thesis .
  qed
  have "group0 m = m0" by (simp add: group0_def m)
  with sh valid have concl: "group0 m = pre @ ds
     \<and> list_all is_digit ds \<and> 10 \<le> length ds \<and> length ds \<le> 13
     \<and> (pre = [] \<or> (\<exists>sep. pre = ''+91'' @ sep \<and> list_all is_separator sep))
     \<and> (is_valid_phone (group0 m) \<longleftrightarrow> \<not> (pre \<noteq> [] \<and> 12 \<le> length ds))"
    by simp
  show ?thesis
    by (rule exI [where x = pre], rule exI [where x = ds], rule concl)
qed

lemma prefixed_match:
  "re_search False phone_re ''a+91 123456789012'' = Some (''+91 123456789012'', [])"
  by code_simp

theorem fallback_match_validity_witness:
  "re_search False phone_re ''a+91 123456789012'' = Some (''+91 123456789012'', [])
   \<and> \<not> is_valid_phone ''+91 123456789012''
   \<and> (\<exists>pre ds. ''+91 123456789012'' = pre @ ds
     \<and> list_all is_digit ds \<and> 10 \<le> length ds \<and> length ds \<le> 13
     \<and> (pre = [] \<or> (\<exists>sep. pre = ''+91'' @ sep \<and> list_all is_separator sep))
     \<and> (is_valid_phone ''+91 123456789012'' \<longleftrightarrow> \<not> (pre \<noteq> [] \<and> 12 \<le> length ds)))"
proof -
  have "group0 (''+91 123456789012'', []) = ''+91 123456789012''"
    by (simp add: group0_def)
  moreover have "\<not> is_valid_phone ''+91 123456789012''"
    by code_simp
  ultimately show ?thesis
    using prefixed_match fallback_match_validity [OF prefixed_match] by simp
qed

section \<open>E-mail extraction\<close>




























end
